theory Spec2Isabelle
  imports Main "HOL-Library.AList"
begin

section \<open>Python strings\<close>

text \<open>
  A Python \<open>str\<close> is modelled as a \<open>string\<close>: each \<open>char\<close> is read as one code point in
  the range 0..255.  The character classes below are Python's, cut to that range.
\<close>

definition LF :: char where
  "LF = CHR 0x0A"

definition CR :: char where
  "CR = CHR 0x0D"

text \<open>\<open>str.isspace\<close> on one character: what \<open>str.strip()\<close> removes.\<close>

definition is_space :: "char \<Rightarrow> bool" where
  "is_space c = (c \<in> set [CHR 0x09, CHR 0x0A, CHR 0x0B, CHR 0x0C, CHR 0x0D,
                            CHR 0x1C, CHR 0x1D, CHR 0x1E, CHR 0x1F, CHR 0x20,
                            CHR 0x85, CHR 0xA0])"

text \<open>The line boundaries of \<open>str.splitlines()\<close>.\<close>

definition is_linebreak :: "char \<Rightarrow> bool" where
  "is_linebreak c = (c \<in> set [CHR 0x0A, CHR 0x0B, CHR 0x0C, CHR 0x0D,
                                CHR 0x1C, CHR 0x1D, CHR 0x1E, CHR 0x85])"

text \<open>\<open>s.strip(chars)\<close>: leading and trailing characters of the class are removed.\<close>

definition strip_chars :: "(char \<Rightarrow> bool) \<Rightarrow> string \<Rightarrow> string" where
  "strip_chars P s = rev (dropWhile P (rev (dropWhile P s)))"

definition strip :: "string \<Rightarrow> string" where
  "strip s = strip_chars is_space s"

text \<open>
  \<open>s.splitlines()\<close>: the text is cut at every line boundary, CR LF counting as one; the
  boundaries are dropped, and a text that ends with a boundary has no empty last line.
  The first argument is the line read so far.
\<close>

fun splitlines_from :: "string \<Rightarrow> string \<Rightarrow> string list" where
  "splitlines_from cur [] = (if cur = [] then [] else [cur])"
| "splitlines_from cur (c # cs) =
     (if is_linebreak c then
        (case cs of
           [] \<Rightarrow> [cur]
         | d # ds \<Rightarrow>
             if c = CR \<and> d = LF then cur # splitlines_from [] ds
             else cur # splitlines_from [] cs)
      else splitlines_from (cur @ [c]) cs)"

definition splitlines :: "string \<Rightarrow> string list" where
  "splitlines s = splitlines_from [] s"

text \<open>\<open>s.split(sep)\<close> for a one-character separator: never an empty list.\<close>

fun split :: "char \<Rightarrow> string \<Rightarrow> string list" where
  "split sep [] = [[]]"
| "split sep (c # cs) =
     (if c = sep then [] # split sep cs
      else (c # hd (split sep cs)) # tl (split sep cs))"

text \<open>\<open>sep.join(parts)\<close>.\<close>

fun join :: "string \<Rightarrow> string list \<Rightarrow> string" where
  "join sep [] = []"
| "join sep [p] = p"
| "join sep (p # q # ps) = p @ sep @ join sep (q # ps)"

text \<open>\<open>s.replace(a, b)\<close> for one-character \<open>a\<close> and \<open>b\<close>.\<close>

definition replace :: "char \<Rightarrow> char \<Rightarrow> string \<Rightarrow> string" where
  "replace a b s = map (\<lambda>c. if c = a then b else c) s"

text \<open>\<open>s.startswith(p)\<close>.\<close>

definition startswith :: "string \<Rightarrow> string \<Rightarrow> bool" where
  "startswith s p = (take (length p) s = p)"

text \<open>\<open>str(n)\<close> for a non-negative integer: its decimal digits.\<close>

definition digit_char :: "nat \<Rightarrow> char" where
  "digit_char d = ''0123456789'' ! d"

fun str_nat :: "nat \<Rightarrow> string" where
  "str_nat n = (if n < 10 then [digit_char n] else str_nat (n div 10) @ [digit_char (n mod 10)])"

declare str_nat.simps [simp del]

definition is_digit :: "char \<Rightarrow> bool" where
  "is_digit c = (c \<in> set ''0123456789'')"

definition digit_val :: "char \<Rightarrow> nat" where
  "digit_val c = of_char c - 48"

definition nat_of_digits :: "string \<Rightarrow> nat" where
  "nat_of_digits ds = foldl (\<lambda>a c. 10 * a + digit_val c) 0 ds"

text \<open>
  The digits \<open>int(s)\<close> accepts after the sign: decimal digits, with single underscores
  between digits.
\<close>

fun digits_ok :: "string \<Rightarrow> bool" where
  "digits_ok [] = False"
| "digits_ok [c] = is_digit c"
| "digits_ok (c # d # r) =
     (is_digit c \<and> (if d = CHR ''_'' then digits_ok r else digits_ok (d # r)))"

datatype failure =
    SystemExit int
  | FileNotFoundError
  | FileExistsError
  | NotADirectoryError
  | IsADirectoryError
  | KeyError
  | IndexError
  | ValueError
  | UnicodeDecodeError
  | OSError
  | TimeoutExpired
  | EOFError

text \<open>
  \<open>int(s)\<close>: surrounding whitespace is ignored, a sign is optional; anything else raises.
  The whitespace of \<open>int\<close> is not that of \<open>str.strip()\<close>: the separators U+001C to U+001F
  are not part of it.
\<close>

definition is_int_space :: "char \<Rightarrow> bool" where
  "is_int_space c = (c \<in> set [CHR 0x09, CHR 0x0A, CHR 0x0B, CHR 0x0C, CHR 0x0D, CHR 0x20,
                                CHR 0x85, CHR 0xA0])"

definition py_int :: "string \<Rightarrow> failure + int" where
  "py_int s =
     (let t = strip_chars is_int_space s;
          neg = (t \<noteq> [] \<and> hd t = CHR ''-'');
          ds = (if t \<noteq> [] \<and> (hd t = CHR ''-'' \<or> hd t = CHR ''+'') then tl t else t)
      in if digits_ok ds
         then Inr ((if neg then - 1 else 1) * int (nat_of_digits (filter is_digit ds)))
         else Inl ValueError)"

text \<open>\<open>posixpath.basename\<close>: what follows the last slash.\<close>

definition basename :: "string \<Rightarrow> string" where
  "basename p = rev (takeWhile (\<lambda>c. c \<noteq> CHR ''/'') (rev p))"

text \<open>\<open>posixpath.dirname\<close>: what precedes the last slash, without the slashes that end it
  unless it is made of slashes only.\<close>

definition dirname :: "string \<Rightarrow> string" where
  "dirname p =
     (let head = rev (dropWhile (\<lambda>c. c \<noteq> CHR ''/'') (rev p));
          h = rev (dropWhile (\<lambda>c. c = CHR ''/'') (rev head))
      in if h = [] then head else h)"

text \<open>The directory that holds the last component of a path: trailing slashes do not
  count.  It is empty for a path of one component, which lies in the current directory.\<close>

definition parent_dir :: "string \<Rightarrow> string" where
  "parent_dir p = dirname (rev (dropWhile (\<lambda>c. c = CHR ''/'') (rev p)))"

text \<open>\<open>posixpath.join(a, b)\<close> for two components.\<close>

definition path_join :: "string \<Rightarrow> string \<Rightarrow> string" where
  "path_join a b =
     (if startswith b ''/'' then b
      else if a = [] \<or> last a = CHR ''/'' then a @ b
      else a @ ''/'' @ b)"


section \<open>The world of a run\<close>

text \<open>
  The static configuration \<open>CONF\<close> of the tool.
\<close>

record config =
  upload_url :: string
  upload_repo :: string
  download_url :: string
  download_repo :: string
  groupId_prefix :: string
  verify_tls :: bool
  verbose :: bool

definition CONF :: config where
  "CONF = \<lparr>upload_url = ''https://nexus.gsissc.myatos.net'',
            upload_repo = ''GH_FR_BEZ_RRF_MAVEN2_RHR'',
            download_url = ''https://nexus.forge-dc.cloudmi.minint.fr'',
            download_repo = ''rrf-myatos.net'',
            groupId_prefix = ''fr.gouv.minint.rrf'',
            verify_tls = True,
            verbose = False\<rparr>"

text \<open>
  The dictionary \<open>vars(parser.parse_args())\<close>.  The parser suppresses absent options, so
  \<open>'login' in args\<close> is \<open>arg_login a \<noteq> None\<close>, and likewise for the version, the password
  (stored by \<open>get_auth\<close>) and the verbose flag.
\<close>

record args =
  arg_action :: string
  arg_directory :: string
  arg_group :: string
  arg_login :: "string option"
  arg_passwd :: "string option"
  arg_version :: "string option"
  arg_verbose :: bool

text \<open>
  The file system, as the program observes it: a store from path spellings to nodes.  Two
  spellings of one file are two keys.  A directory carries its entries in the order
  \<open>os.scandir\<close> yields them (\<open>os.listdir\<close> gives their names); an entry is a regular file, a
  directory, or something else (a socket, a dangling link).  Permissions and device
  faults are outside the model.
\<close>

datatype kind = RegularFile | Directory | Special

datatype dirent = DirEntry (entry_name: string) (entry_kind: kind)

datatype node = File string | Dir "dirent list"

type_synonym filesystem = "string \<Rightarrow> node option"

text \<open>
  The standard output of the external process is a byte string; all the program does with
  it is print it and decode it as UTF-8.  \<open>Utf8 t\<close> is an output that decodes to the text
  \<open>t\<close>, \<open>Undecodable b\<close> one that does not decode.
\<close>

datatype bytes = Utf8 string | Undecodable string

definition decode :: "bytes \<Rightarrow> failure + string" where
  "decode b = (case b of Utf8 t \<Rightarrow> Inr t | Undecodable _ \<Rightarrow> Inl UnicodeDecodeError)"

text \<open>
  What \<open>subprocess.run\<close> does with a command line on a file system: the program is not
  found, so that no process starts (\<open>FileNotFoundError\<close>); the process exceeds the timeout;
  or it completes with a return code and an output, after an elapsed time (microseconds).
  Other faults of process creation are outside the model.
\<close>

datatype proc_result = Completed int bytes int | NoSuchProgram | TimedOut

record world =
  environ :: "string \<Rightarrow> string option"
  getpass :: "string option"
  run_process :: "string list \<Rightarrow> filesystem \<Rightarrow> proc_result"

text \<open>
  A log message is the f-string of the source before it is rendered: its literal pieces and
  the values put between them.
\<close>

datatype frag =
    Lit string
  | StrV string
  | IntV int
  | TimeV int
  | BytesV bytes
  | ListV "string list"
  | NoneV

type_synonym message = "frag list"

datatype level = DEBUG | INFO | WARNING | ERROR

text \<open>
  The state a run changes: the argument dictionary, the file system, the records the
  logger has emitted, and the external process invocations made so far, each with the file
  system the process found.
\<close>

record state =
  sargs :: args
  fs :: filesystem
  logs :: "(level \<times> message) list"
  calls :: "(string list \<times> filesystem) list"
  debug_on :: bool

type_synonym 'a prog = "state \<Rightarrow> (failure + 'a) \<times> state"

definition ret :: "'a \<Rightarrow> 'a prog" where
  "ret x s = (Inr x, s)"

definition raise :: "failure \<Rightarrow> 'a prog" where
  "raise e s = (Inl e, s)"

definition bind :: "'a prog \<Rightarrow> ('a \<Rightarrow> 'b prog) \<Rightarrow> 'b prog" where
  "bind m f s = (case m s of (Inl e, s') \<Rightarrow> (Inl e, s') | (Inr x, s') \<Rightarrow> f x s')"

definition lift :: "failure + 'a \<Rightarrow> 'a prog" where
  "lift r s = (r, s)"

text \<open>\<open>try: body finally: fin\<close>: the clean-up runs on every outcome of the body; if it
  raises, its exception replaces the outcome.\<close>

definition try_finally :: "'a prog \<Rightarrow> unit prog \<Rightarrow> 'a prog" where
  "try_finally body fin s =
     (case body s of
        (r, s') \<Rightarrow> (case fin s' of (Inl e, s'') \<Rightarrow> (Inl e, s'') | (Inr _, s'') \<Rightarrow> (r, s'')))"

text \<open>The logger drops debug records unless the level is DEBUG.\<close>

definition logging :: "level \<Rightarrow> message \<Rightarrow> unit prog" where
  "logging lvl msg s =
     (if lvl = DEBUG \<and> \<not> debug_on s then (Inr (), s)
      else (Inr (), s\<lparr>logs := logs s @ [(lvl, msg)]\<rparr>))"

definition get_args :: "args prog" where
  "get_args s = (Inr (sargs s), s)"

definition die :: "message \<Rightarrow> 'a prog" where
  "die msg = bind (logging ERROR msg) (\<lambda>_. raise (SystemExit 1))"

subsection \<open>File system calls\<close>

definition path_exists :: "string \<Rightarrow> bool prog" where
  "path_exists p s = (Inr (fs s p \<noteq> None), s)"

definition path_isdir :: "string \<Rightarrow> bool prog" where
  "path_isdir p s = (Inr (case fs s p of Some (Dir _) \<Rightarrow> True | _ \<Rightarrow> False), s)"

definition scandir :: "string \<Rightarrow> dirent list prog" where
  "scandir p s =
     (case fs s p of
        None \<Rightarrow> (Inl FileNotFoundError, s)
      | Some (File _) \<Rightarrow> (Inl NotADirectoryError, s)
      | Some (Dir es) \<Rightarrow> (Inr es, s))"

definition listdir :: "string \<Rightarrow> string list prog" where
  "listdir p = bind (scandir p) (\<lambda>es. ret (map entry_name es))"

text \<open>
  \<open>os.mkdir(p)\<close> creates one level: the path must not exist, and the directory that is to
  hold it must (the current directory always does); a missing parent is not created.
\<close>

definition mkdir :: "string \<Rightarrow> unit prog" where
  "mkdir p s =
     (case fs s p of
        Some _ \<Rightarrow> (Inl FileExistsError, s)
      | None \<Rightarrow>
          if p = [] then (Inl FileNotFoundError, s)
          else if dropWhile (\<lambda>c. c = CHR ''/'') p = [] then (Inl FileExistsError, s)
          else if parent_dir p = [] then (Inr (), s\<lparr>fs := (fs s)(p \<mapsto> Dir [])\<rparr>)
          else (case fs s (parent_dir p) of
                  None \<Rightarrow> (Inl FileNotFoundError, s)
                | Some (File _) \<Rightarrow> (Inl NotADirectoryError, s)
                | Some (Dir _) \<Rightarrow> (Inr (), s\<lparr>fs := (fs s)(p \<mapsto> Dir [])\<rparr>)))"

text \<open>\<open>open(p, mode='w+')\<close>: the file is created, or cut to length zero.\<close>

definition open_w :: "string \<Rightarrow> unit prog" where
  "open_w p s =
     (case fs s p of
        Some (Dir _) \<Rightarrow> (Inl IsADirectoryError, s)
      | _ \<Rightarrow> (Inr (), s\<lparr>fs := (fs s)(p \<mapsto> File [])\<rparr>))"

definition writelines :: "string \<Rightarrow> string list \<Rightarrow> unit prog" where
  "writelines p ls s =
     (case fs s p of
        Some (File c) \<Rightarrow> (Inr (), s\<lparr>fs := (fs s)(p \<mapsto> File (c @ concat ls))\<rparr>)
      | _ \<Rightarrow> (Inl OSError, s))"

definition os_remove :: "string \<Rightarrow> unit prog" where
  "os_remove p s =
     (case fs s p of
        None \<Rightarrow> (Inl FileNotFoundError, s)
      | Some (Dir _) \<Rightarrow> (Inl IsADirectoryError, s)
      | Some (File _) \<Rightarrow> (Inr (), s\<lparr>fs := (fs s)(p := None)\<rparr>))"

text \<open>\<open>subprocess.run\<close>: the invocation is recorded with the file system it runs on.  What
  the process itself writes (the downloaded files) is not part of the state.\<close>

definition subprocess_run :: "world \<Rightarrow> string list \<Rightarrow> (int \<times> bytes \<times> int) prog" where
  "subprocess_run w cmd s =
     (let s' = s\<lparr>calls := calls s @ [(cmd, fs s)]\<rparr>
      in case run_process w cmd (fs s) of
           NoSuchProgram \<Rightarrow> (Inl FileNotFoundError, s')
         | TimedOut \<Rightarrow> (Inl TimeoutExpired, s')
         | Completed rc out el \<Rightarrow> (Inr (rc, out, el), s'))"

text \<open>\<open>d[k]\<close> on a dictionary kept as an association list in insertion order; \<open>d[k] = v\<close> is
  \<open>AList.update k v d\<close>.\<close>

definition getitem :: "(string \<times> string) list \<Rightarrow> string \<Rightarrow> string prog" where
  "getitem d k = (case map_of d k of None \<Rightarrow> raise KeyError | Some v \<Rightarrow> ret v)"

section \<open>The tool\<close>

definition get_groupId :: "args \<Rightarrow> string" where
  "get_groupId a =
     (if groupId_prefix CONF \<noteq> [] then groupId_prefix CONF @ ''.'' @ arg_group a
      else arg_group a)"

definition passwd_message :: message where
  "passwd_message = [Lit ''NEXUS_PASSWD env variable is not defined'']"

function get_auth :: "world \<Rightarrow> state \<Rightarrow> (failure + string option) \<times> state" where
  "get_auth w s =
     (case arg_login (sargs s) of
        Some l \<Rightarrow>
          (case arg_passwd (sargs s) of
             Some p \<Rightarrow> (Inr (Some (l @ '':'' @ p)), s)
           | None \<Rightarrow>
               (case getpass w of
                  None \<Rightarrow> (Inl EOFError, s)
                | Some p \<Rightarrow>
                    (Inr (Some (l @ '':'' @ p)), s\<lparr>sargs := (sargs s)\<lparr>arg_passwd := Some p\<rparr>\<rparr>)))
      | None \<Rightarrow>
          (case environ w ''NEXUS_LOGIN'' of
             Some l \<Rightarrow>
               (case environ w ''NEXUS_PASSWD'' of
                  Some p \<Rightarrow>
                    get_auth w (s\<lparr>sargs := (sargs s)\<lparr>arg_login := Some l, arg_passwd := Some p\<rparr>\<rparr>)
                | None \<Rightarrow>
                    die passwd_message
                      (s\<lparr>sargs := (sargs s)\<lparr>arg_login := Some l\<rparr>\<rparr>))
           | None \<Rightarrow> (Inr None, s)))"
  by pat_completeness auto
termination
  by (relation "measure (\<lambda>(w, s). if arg_login (sargs s) = None then 1 else 0)") auto

declare get_auth.simps [simp del]

text \<open>Lines 195 to 199: the non-blank lines of the output, stripped.\<close>

definition resp_lines :: "string \<Rightarrow> string list" where
  "resp_lines text = filter (\<lambda>l. l \<noteq> []) (map strip (splitlines text))"

text \<open>Line 201: \<open>int(respLines[-1].split('=')[1])\<close>.\<close>

definition parse_status :: "string list \<Rightarrow> failure + int" where
  "parse_status respLines =
     (if respLines = [] then Inl IndexError
      else let parts = split CHR ''='' (last respLines)
           in if length parts < 2 then Inl IndexError else py_int (parts ! 1))"

text \<open>
  \<open>run_curl_cmd\<close> in three parts.  Lines 162 to 181: the command line.
\<close>

definition curl_command ::
  "string option \<Rightarrow> string \<Rightarrow> (string \<times> string) list option \<Rightarrow> string option
     \<Rightarrow> string list" where
  "curl_command auth url data outdir =
     [''curl'', ''--parallel'', ''--write-out'', ''\<newline>**http_status=%{http_code}\<newline>'']
     @ (case auth of
          Some a \<Rightarrow> if a \<noteq> [] then [''-u'', a] else []
        | None \<Rightarrow> [])
     @ (if \<not> verify_tls CONF then [''--insecure''] else [])
     @ (case data of
          Some d \<Rightarrow>
            if d \<noteq> [] then concat (map (\<lambda>(name, value). [''-F'', name @ ''='' @ value]) d)
            else []
        | None \<Rightarrow> [])
     @ (case outdir of
          Some od \<Rightarrow>
            if od \<noteq> []
            then [''--remote-name-all'', ''--retry'', ''6'', ''--retry-delay'', ''10'',
                  ''--output-dir'', od]
            else []
        | None \<Rightarrow> [])
     @ [url]"

text \<open>Lines 192 to 206: what is made of the completed process.  The messages handed to
  \<open>die\<close> are named, here and below, after what they report.\<close>

definition auth_message :: "int \<Rightarrow> message" where
  "auth_message httpStatus =
     [Lit ''curl failed: status='', IntV httpStatus,
      Lit '' (authentication error) => check login and password '']"

definition exit_message :: "int \<Rightarrow> int \<Rightarrow> bytes \<Rightarrow> message" where
  "exit_message returncode elapsed stdout =
     [Lit ''curl failed: status='', IntV returncode, Lit '' time='', TimeV elapsed,
      Lit '' stdout='', BytesV stdout, Lit '' stderr='', NoneV]"

definition curl_response :: "int \<Rightarrow> bytes \<Rightarrow> int \<Rightarrow> (string list \<times> int \<times> int) prog" where
  "curl_response returncode stdout elapsed =
     (if returncode \<noteq> 0
      then die (exit_message returncode elapsed stdout)
      else
        bind (lift (decode stdout)) (\<lambda>text.
        let respLines = resp_lines text in
        bind (lift (parse_status respLines)) (\<lambda>httpStatus.
        if httpStatus = 401 \<or> httpStatus = 403
        then die (auth_message httpStatus)
        else ret (butlast respLines, httpStatus, elapsed))))"

text \<open>The whole of \<open>run_curl_cmd\<close>, lines 161 to 206.\<close>

definition run_curl_cmd ::
  "world \<Rightarrow> string \<Rightarrow> (string \<times> string) list option \<Rightarrow> string option
     \<Rightarrow> (string list \<times> int \<times> int) prog" where
  "run_curl_cmd w url data outdir =
     bind (get_auth w) (\<lambda>auth.
     let curlCmd = curl_command auth url data outdir in
     bind (logging DEBUG [Lit ''curl cmd='', ListV curlCmd]) (\<lambda>_.
     bind (subprocess_run w curlCmd) (\<lambda>(returncode, stdout, elapsed).
     bind (logging DEBUG [Lit ''curl => status='', IntV returncode, Lit '' stdout='',
                          BytesV stdout, Lit '' stderr='', NoneV]) (\<lambda>_.
     curl_response returncode stdout elapsed))))"

subsection \<open>Upload\<close>

text \<open>The name \<open>f'maven2.asset{assetIdx}'\<close>.\<close>

definition asset_key :: "nat \<Rightarrow> string" where
  "asset_key k = ''maven2.asset'' @ str_nat k"

text \<open>What the directory scan carries from one entry to the next.\<close>

record scan =
  data :: "(string \<times> string) list"
  idxEntries :: "string list"
  assetIdx :: nat

text \<open>Lines 87 to 99, the body of the loop, for the entry \<open>file\<close> of the scanned path \<open>dp\<close>.\<close>

definition scan_entry :: "string \<Rightarrow> dirent \<Rightarrow> scan \<Rightarrow> scan prog" where
  "scan_entry dp file sc =
     (if \<not> startswith (entry_name file) ''.'' \<and> entry_kind file = RegularFile then
        let parts = split CHR ''.'' (entry_name file) in
        if length parts < 2
        then bind (logging WARNING [Lit ''skipping a file without extension: '',
                                    StrV (entry_name file)]) (\<lambda>_. ret sc)
        else
          let k = asset_key (assetIdx sc);
              d1 = AList.update k (CHR ''@'' # path_join dp (entry_name file)) (data sc);
              d2 = AList.update (k @ ''.classifier'') (join ''.'' (butlast parts)) d1;
              d3 = AList.update (k @ ''.extension'') (last parts) d2
          in
          bind (getitem d3 ''maven2.artifactId'') (\<lambda>a.
          bind (getitem d3 ''maven2.version'') (\<lambda>v.
          bind (getitem d3 (k @ ''.classifier'')) (\<lambda>c.
          bind (getitem d3 (k @ ''.extension'')) (\<lambda>e.
          ret \<lparr>data = d3,
               idxEntries = idxEntries sc @ [a @ ''-'' @ v @ ''-'' @ c @ ''.'' @ e @ [LF]],
               assetIdx = assetIdx sc + 1\<rparr>))))
      else if entry_kind file = Directory
      then bind (logging INFO [Lit ''skipping sub-directory: '', StrV (entry_name file)])
             (\<lambda>_. ret sc)
      else ret sc)"

fun scan_entries :: "string \<Rightarrow> dirent list \<Rightarrow> scan \<Rightarrow> scan prog" where
  "scan_entries dp [] sc = ret sc"
| "scan_entries dp (file # files) sc =
     bind (scan_entry dp file sc) (\<lambda>sc'. scan_entries dp files sc')"

text \<open>
  \<open>do_upload\<close> in two parts.  Lines 59 to 107: the checks, the scan and the index file; the
  result is the index file's path and the form fields.
\<close>

definition nofile_message :: "string \<Rightarrow> message" where
  "nofile_message directory = [Lit ''no such file or directory: '', StrV directory]"

definition notdir_message :: message where
  "notdir_message = [Lit ''ERROR: target must be a directory'']"

definition dot_message :: message where
  \<open>dot_message = [Lit ''dir name must not contain a "." (dot)'']\<close>

definition upload_prepare :: "(string \<times> (string \<times> string) list) prog" where
  "upload_prepare =
     bind get_args (\<lambda>a.
        let directory = strip_chars (\<lambda>c. c = CHR ''/'' \<or> c = CHR 0x5C) (arg_directory a)
        in
        bind (logging INFO [Lit ''directory='', StrV directory]) (\<lambda>_.
        bind (path_exists directory) (\<lambda>ex.
        if \<not> ex then die (nofile_message directory)
        else
          let data0 = [(''maven2.groupId'', get_groupId a),
                       (''maven2.version'', case arg_version a of Some v \<Rightarrow> v | None \<Rightarrow> ''1.0'')]
          in
          bind (path_isdir directory) (\<lambda>isd.
          if \<not> isd then die notdir_message
          else if CHR ''.'' \<in> set directory then die dot_message
          else
            let data1 = AList.update ''maven2.artifactId'' (basename directory) data0 in
            bind (getitem data1 ''maven2.groupId'') (\<lambda>g.
            bind (getitem data1 ''maven2.artifactId'') (\<lambda>artifactId.
            bind (logging INFO [Lit ''Nexus artifact path: '',
                                StrV (replace CHR ''.'' CHR ''/'' g), Lit ''/'',
                                StrV artifactId]) (\<lambda>_.
            bind (scandir (arg_directory a)) (\<lambda>dirScan.
            bind (scan_entries (arg_directory a) dirScan
                    \<lparr>data = data1, idxEntries = [], assetIdx = 2\<rparr>) (\<lambda>sc.
            bind (getitem (data sc) ''maven2.artifactId'') (\<lambda>artifactId'.
            let idxFilePath = directory @ ''/'' @ artifactId' @ ''.txt'' in
            bind (open_w idxFilePath) (\<lambda>_.
            let data2 = AList.update ''maven2.asset1'' (CHR ''@'' # idxFilePath) (data sc);
                data3 = AList.update ''maven2.asset1.extension'' ''txt'' data2
            in
            bind (writelines idxFilePath (idxEntries sc)) (\<lambda>_.
            ret (idxFilePath, data3)))))))))))))"

text \<open>Lines 110 to 120: the transfer, the removal of the index file, the verdict.\<close>

definition upload_failed_message :: "int \<Rightarrow> string list \<Rightarrow> int \<Rightarrow> message" where
  "upload_failed_message httpStatus httpResponse elapsed =
     [Lit ''upload failed stats='', IntV httpStatus, Lit '' != 204 response='',
      ListV httpResponse, Lit '' ('', TimeV elapsed, Lit '')'']"

definition upload_transfer :: "world \<Rightarrow> string \<Rightarrow> (string \<times> string) list \<Rightarrow> unit prog" where
  "upload_transfer w idxFilePath data3 =
     (let url = upload_url CONF @ ''/service/rest/v1/components?repository='' @ upload_repo CONF
      in
      bind (try_finally (run_curl_cmd w url (Some data3) None) (os_remove idxFilePath))
        (\<lambda>(httpResponse, httpStatus, elapsed).
      if httpStatus \<noteq> 204
      then die (upload_failed_message httpStatus httpResponse elapsed)
      else logging INFO [Lit ''upload OK ('', TimeV elapsed, Lit '')'']))"

definition do_upload :: "world \<Rightarrow> unit prog" where
  "do_upload w =
     bind upload_prepare (\<lambda>(idxFilePath, data3). upload_transfer w idxFilePath data3)"

subsection \<open>Download\<close>

definition not_empty_message :: "string \<Rightarrow> message" where
  "not_empty_message destDir =
     [Lit ''destination directory='', StrV destDir, Lit '' exists and not empty'']"

definition index_failed_message :: message where
  "index_failed_message =
     [Lit (''download failed: directory or index file not found. ''
           @ ''Did you upload using this tool ?'')]"

definition empty_index_message :: message where
  "empty_index_message = [Lit ''nothing to download (index file is empty !)'']"

definition download_failed_message :: "int \<Rightarrow> int \<Rightarrow> string list \<Rightarrow> message" where
  "download_failed_message httpStatus elapsed httpResponse =
     [Lit ''download failed httpStatus='', IntV httpStatus, Lit '' ('', TimeV elapsed,
      Lit '') httpResp='', ListV httpResponse, Lit '' '']"

text \<open>
  \<open>do_download\<close> in two parts.  Lines 124 to 134: the destination directory; the result is
  the artifact, the version and the directory's name.
\<close>

definition download_destination :: "(string \<times> string \<times> string) prog" where
  "download_destination =
     bind get_args (\<lambda>a.
        let artifactId = arg_directory a;
            version = (case arg_version a of Some v \<Rightarrow> v | None \<Rightarrow> ''1.0'');
            destDir = artifactId @ ''-'' @ version
        in
        bind (logging INFO [Lit ''downloading to directory='', StrV artifactId, Lit ''-'',
                            StrV version, Lit '' ...'']) (\<lambda>_.
        bind (path_exists destDir) (\<lambda>ex.
        bind (if ex
              then bind (listdir destDir) (\<lambda>names.
                     if length names \<noteq> 0
                     then die (not_empty_message destDir)
                     else ret ())
              else mkdir destDir) (\<lambda>_.
        ret (artifactId, version, destDir)))))"

text \<open>Lines 136 to 158: the index fetch and the bulk fetch.\<close>

definition download_fetch :: "world \<Rightarrow> string \<Rightarrow> string \<Rightarrow> string \<Rightarrow> unit prog" where
  "download_fetch w artifactId version destDir =
     bind get_args (\<lambda>a.
        let groupId = replace CHR ''.'' CHR ''/'' (get_groupId a);
            baseUrl = download_url CONF @ ''/repository/'' @ download_repo CONF @ ''/''
                      @ groupId @ ''/'' @ artifactId @ ''/'' @ version;
            idxUrl = baseUrl @ ''/'' @ destDir @ ''.txt''
        in
        bind (run_curl_cmd w idxUrl None None) (\<lambda>(fileNames, httpStatus, elapsed).
        if httpStatus \<noteq> 200
        then die index_failed_message
        else if length fileNames = 0
        then die empty_index_message
        else
          let fileHashes = map (\<lambda>file. file @ ''.md5'') fileNames;
              filesUrl = concat [baseUrl, ''/'', ''{'', join '','' (fileHashes @ fileNames), ''}'']
          in
          bind (run_curl_cmd w filesUrl None (Some destDir))
            (\<lambda>(httpResponse, httpStatus, elapsed).
          if httpStatus \<noteq> 200
          then die (download_failed_message httpStatus elapsed httpResponse)
          else logging INFO [Lit ''donwload OK ('', TimeV elapsed, Lit '')''])))"

definition do_download :: "world \<Rightarrow> unit prog" where
  "do_download w =
     bind download_destination (\<lambda>(artifactId, version, destDir).
       download_fetch w artifactId version destDir)"

subsection \<open>The entry point\<close>

definition main :: "world \<Rightarrow> unit prog" where
  "main w s =
     (let s1 = s\<lparr>debug_on := (arg_verbose (sargs s) \<or> verbose CONF)\<rparr>
      in if arg_action (sargs s) \<in> set [''up'', ''upload''] then do_upload w s1
         else do_download w s1)"

text \<open>A run starts with nothing logged and no process invoked.\<close>

definition init :: "args \<Rightarrow> filesystem \<Rightarrow> state" where
  "init a f = \<lparr>sargs = a, fs = f, logs = [], calls = [], debug_on = False\<rparr>"


section \<open>Notions the properties are stated with\<close>

text \<open>The messages a run has reported at level ERROR, in order.\<close>

definition errors :: "state \<Rightarrow> message list" where
  "errors s = map snd (filter (\<lambda>e. fst e = ERROR) (logs s))"

text \<open>The HTTP status \<open>run_curl_cmd\<close> reads from a process result, when it gets as far as
  reading one (line 201).\<close>

definition http_status :: "proc_result \<Rightarrow> int option" where
  "http_status res =
     (case res of
        Completed rc out el \<Rightarrow>
          if rc \<noteq> 0 then None
          else (case decode out of
                  Inl _ \<Rightarrow> None
                | Inr text \<Rightarrow>
                    (case parse_status (resp_lines text) of Inl _ \<Rightarrow> None | Inr st \<Rightarrow> Some st))
      | _ \<Rightarrow> None)"

text \<open>No login among the arguments, a login in the environment and no password there: the
  case in which \<open>get_auth\<close> dies (line 229).\<close>

definition password_missing :: "world \<Rightarrow> state \<Rightarrow> bool" where
  "password_missing w s =
     (arg_login (sargs s) = None \<and> environ w ''NEXUS_LOGIN'' \<noteq> None
      \<and> environ w ''NEXUS_PASSWD'' = None)"

text \<open>Between \<open>s\<close> and \<open>s'\<close> one process was invoked, for the given URL, form fields and
  output directory, on the file system of \<open>s\<close>, and \<open>res\<close> is what it did.\<close>

definition call_made ::
  "world \<Rightarrow> string \<Rightarrow> (string \<times> string) list option \<Rightarrow> string option
    \<Rightarrow> state \<Rightarrow> state \<Rightarrow> proc_result \<Rightarrow> bool" where
  "call_made w url flds outdir s s' res =
     (\<exists>auth. calls s' = calls s @ [(curl_command auth url flds outdir, fs s)]
             \<and> res = run_process w (curl_command auth url flds outdir) (fs s))"

text \<open>What \<open>run_curl_cmd\<close> makes of a process result: its own result \<open>r\<close> and the error
  messages \<open>new\<close> it reports (lines 187 to 206).\<close>

definition verdict ::
  "proc_result \<Rightarrow> failure + (string list \<times> int \<times> int) \<Rightarrow> message list \<Rightarrow> bool" where
  "verdict res r new =
     (case res of
        NoSuchProgram \<Rightarrow> r = Inl FileNotFoundError \<and> new = []
      | TimedOut \<Rightarrow> r = Inl TimeoutExpired \<and> new = []
      | Completed rc out el \<Rightarrow>
          if rc \<noteq> 0 then r = Inl (SystemExit 1) \<and> new = [exit_message rc el out]
          else case http_status res of
                 None \<Rightarrow> (\<exists>e. r = Inl e \<and> e \<noteq> SystemExit 1) \<and> new = []
               | Some st \<Rightarrow>
                   if st = 401 \<or> st = 403
                   then r = Inl (SystemExit 1) \<and> new = [auth_message st]
                   else (\<exists>tx. decode out = Inr tx \<and> r = Inr (butlast (resp_lines tx), st, el))
                        \<and> new = [])"

text \<open>The entries the scan turns into assets (the tests of lines 87 and 89), and the two
  fields it derives from a name (lines 93 and 94).\<close>

definition eligible :: "dirent \<Rightarrow> bool" where
  "eligible file =
     (\<not> startswith (entry_name file) ''.'' \<and> entry_kind file = RegularFile
      \<and> CHR ''.'' \<in> set (entry_name file))"

definition classifier :: "string \<Rightarrow> string" where
  "classifier name = join ''.'' (butlast (split CHR ''.'' name))"

definition extension :: "string \<Rightarrow> string" where
  "extension name = last (split CHR ''.'' name)"

text \<open>The three assignments of lines 92 to 94 for asset \<open>k\<close>, and their repetition over a
  list of files numbered from \<open>k\<close>.\<close>

definition set_asset :: "string \<Rightarrow> nat \<Rightarrow> dirent \<Rightarrow> (string \<times> string) list \<Rightarrow> (string \<times> string) list" where
  "set_asset dp k file d =
     AList.update (asset_key k @ ''.extension'') (extension (entry_name file))
       (AList.update (asset_key k @ ''.classifier'') (classifier (entry_name file))
          (AList.update (asset_key k) (CHR ''@'' # path_join dp (entry_name file)) d))"

fun set_assets :: "string \<Rightarrow> nat \<Rightarrow> dirent list \<Rightarrow> (string \<times> string) list \<Rightarrow> (string \<times> string) list" where
  "set_assets dp k [] d = d"
| "set_assets dp k (file # files) d = set_assets dp (Suc k) files (set_asset dp k file d)"

text \<open>The line of the index for one file, without its newline (line 96).\<close>

definition index_line :: "string \<Rightarrow> string \<Rightarrow> dirent \<Rightarrow> string" where
  "index_line a v file =
     a @ ''-'' @ v @ ''-'' @ classifier (entry_name file) @ ''.'' @ extension (entry_name file)"

text \<open>What the scan logs for one entry (lines 90 and 99).\<close>

definition entry_log :: "dirent \<Rightarrow> (level \<times> message) list" where
  "entry_log file =
     (if \<not> startswith (entry_name file) ''.'' \<and> entry_kind file = RegularFile then
        (if CHR ''.'' \<in> set (entry_name file) then []
         else [(WARNING, [Lit ''skipping a file without extension: '', StrV (entry_name file)])])
      else if entry_kind file = Directory
      then [(INFO, [Lit ''skipping sub-directory: '', StrV (entry_name file)])]
      else [])"

text \<open>The endings of the names of an asset's fields.\<close>

definition suffixes :: "string set" where
  "suffixes = {[], ''.classifier'', ''.extension''}"


text \<open>The names of the fields of the assets numbered \<open>k\<close> to \<open>k + n - 1\<close>.\<close>

definition asset_keys :: "nat \<Rightarrow> nat \<Rightarrow> string set" where
  "asset_keys k n = {asset_key j @ x | j x. k \<le> j \<and> j < k + n \<and> x \<in> suffixes}"


text \<open>The values \<open>do_upload\<close> derives from its arguments: the trimmed directory (line 59),
  the version (line 68), the form fields before the scan (lines 66 to 78), the path of the
  index file (line 102), the index written for the entries of the scanned directory
  (lines 95 to 106), the form fields handed to the transfer, and the two records logged
  before the scan.\<close>

definition upload_directory :: "state \<Rightarrow> string" where
  "upload_directory s = strip_chars (\<lambda>c. c = CHR ''/'' \<or> c = CHR 0x5C) (arg_directory (sargs s))"

definition upload_version :: "state \<Rightarrow> string" where
  "upload_version s = (case arg_version (sargs s) of Some v \<Rightarrow> v | None \<Rightarrow> ''1.0'')"

definition upload_data1 :: "state \<Rightarrow> (string \<times> string) list" where
  "upload_data1 s =
     [(''maven2.groupId'', get_groupId (sargs s)), (''maven2.version'', upload_version s),
      (''maven2.artifactId'', basename (upload_directory s))]"

definition index_path :: "state \<Rightarrow> string" where
  "index_path s = upload_directory s @ ''/'' @ basename (upload_directory s) @ ''.txt''"

definition index_content :: "state \<Rightarrow> dirent list \<Rightarrow> string" where
  "index_content s es =
     concat (map (\<lambda>f. index_line (basename (upload_directory s)) (upload_version s) f @ [LF])
               (filter eligible es))"

definition upload_data3 :: "state \<Rightarrow> dirent list \<Rightarrow> (string \<times> string) list" where
  "upload_data3 s es =
     AList.update ''maven2.asset1.extension'' ''txt''
       (AList.update ''maven2.asset1'' (CHR ''@'' # index_path s)
          (set_assets (arg_directory (sargs s)) 2 (filter eligible es) (upload_data1 s)))"

definition upload_log1 :: "state \<Rightarrow> (level \<times> message) list" where
  "upload_log1 s = [(INFO, [Lit ''directory='', StrV (upload_directory s)])]"

definition upload_log2 :: "state \<Rightarrow> (level \<times> message) list" where
  "upload_log2 s =
     [(INFO, [Lit ''Nexus artifact path: '',
              StrV (replace CHR ''.'' CHR ''/'' (get_groupId (sargs s))), Lit ''/'',
              StrV (basename (upload_directory s))])]"

section \<open>Inputs the theorems are tried on\<close>

definition ex_args :: "string \<Rightarrow> string \<Rightarrow> args" where
  "ex_args act dir =
     \<lparr>arg_action = act, arg_directory = dir, arg_group = ''g'', arg_login = None,
      arg_passwd = None, arg_version = None, arg_verbose = False\<rparr>"

definition ex_fs :: filesystem where
  "ex_fs = (\<lambda>p. if p = ''r''
                 then Some (Dir [DirEntry ''a.b'' RegularFile, DirEntry ''.h'' RegularFile,
                                 DirEntry ''sub'' Directory, DirEntry ''README'' RegularFile])
                 else None)"

definition ex_env :: "string \<Rightarrow> string option" where
  "ex_env = (\<lambda>_. None)"

definition ex_world :: "proc_result \<Rightarrow> world" where
  "ex_world res = \<lparr>environ = ex_env, getpass = None, run_process = (\<lambda>cmd f. res)\<rparr>"

definition ex_scan :: scan where
  "ex_scan = \<lparr>data = [(''maven2.artifactId'', ''r''), (''maven2.version'', ''1.0'')],
              idxEntries = [], assetIdx = 2\<rparr>"

definition ex_state :: state where
  "ex_state = init (ex_args ''upload'' ''r'') ex_fs"

text \<open>The form fields of the upload of \<open>ex_state\<close>.\<close>

definition ex_data :: "(string \<times> string) list" where
  "ex_data =
     [(''maven2.groupId'', ''fr.gouv.minint.rrf.g''), (''maven2.version'', ''1.0''),
      (''maven2.artifactId'', ''r''), (''maven2.asset2'', ''@r/a.b''),
      (''maven2.asset2.classifier'', ''a''), (''maven2.asset2.extension'', ''b''),
      (''maven2.asset1'', ''@r/r.txt''), (''maven2.asset1.extension'', ''txt'')]"

text \<open>A line the response parser returns as it stands: no line boundary in it, no
  whitespace at either end.\<close>

definition clean_line :: "string \<Rightarrow> bool" where
  "clean_line l = ((\<forall>c\<in>set l. \<not> is_linebreak c) \<and> \<not> is_space (hd l) \<and> \<not> is_space (last l))"

text \<open>A directory whose one file has a name that ends with a space.\<close>

definition ex_fs_space :: filesystem where
  "ex_fs_space = (\<lambda>p. if p = ''r'' then Some (Dir [DirEntry ''a.b '' RegularFile]) else None)"

definition ex_state_space :: state where
  "ex_state_space = init (ex_args ''upload'' ''r'') ex_fs_space"

text \<open>The URL of the upload (line 110).\<close>

definition upload_target :: string where
  "upload_target = upload_url CONF @ ''/service/rest/v1/components?repository='' @ upload_repo CONF"

text \<open>What \<open>do_upload\<close> makes of the result \<open>r1\<close> of its transfer: its own result \<open>r\<close> and the
  error messages reported from the transfer on (lines 113 to 120).\<close>

definition upload_verdict ::
  "failure + (string list \<times> int \<times> int) \<Rightarrow> message list \<Rightarrow> failure + unit \<Rightarrow> message list \<Rightarrow> bool" where
  "upload_verdict r1 new1 r new =
     (case r1 of
        Inl e \<Rightarrow> r = Inl e \<and> new = new1
      | Inr (httpResponse, httpStatus, elapsed) \<Rightarrow>
          if httpStatus \<noteq> 204
          then r = Inl (SystemExit 1)
               \<and> new = [upload_failed_message httpStatus httpResponse elapsed]
          else r = Inr () \<and> new = [])"

text \<open>A process that completes with return code 0 and prints the given status after an
  empty body, and a directory that holds a file with the name of its own index file.\<close>

definition ex_reply :: "string \<Rightarrow> proc_result" where
  "ex_reply st = Completed 0 (Utf8 (''\<newline>**http_status='' @ st @ ''\<newline>'')) 5"

definition ex_fs_idx :: filesystem where
  "ex_fs_idx = (\<lambda>p. if p = ''r'' then Some (Dir [DirEntry ''r.txt'' RegularFile])
                     else if p = ''r/r.txt'' then Some (File ''old'')
                     else None)"

definition ex_state_idx :: state where
  "ex_state_idx = init (ex_args ''upload'' ''r'') ex_fs_idx"


text \<open>A directory \<open>r\<close> below a directory whose name has a dot, and a directory whose own
  name has one.\<close>

definition ex_fs_dot :: filesystem where
  "ex_fs_dot = (\<lambda>p. if p = ''a.b/r'' \<or> p = ''r.d'' then Some (Dir []) else None)"

text \<open>The version and the destination directory of a download (lines 125 and 129), and
  what \<open>do_download\<close> makes of the result \<open>r2\<close> of its bulk fetch (lines 153 to 158).\<close>

definition download_version :: "state \<Rightarrow> string" where
  "download_version s = (case arg_version (sargs s) of Some v \<Rightarrow> v | None \<Rightarrow> ''1.0'')"

definition dest_dir :: "state \<Rightarrow> string" where
  "dest_dir s = arg_directory (sargs s) @ ''-'' @ download_version s"

text \<open>The directory that is to hold the destination, and whether \<open>os.mkdir\<close> finds it: it
  is the current directory, or a directory of the file system.\<close>

definition dest_parent :: "state \<Rightarrow> string" where
  "dest_parent s = parent_dir (dest_dir s)"

definition parent_present :: "state \<Rightarrow> bool" where
  "parent_present s =
     (dest_parent s = []
      \<or> (case fs s (dest_parent s) of Some (Dir _) \<Rightarrow> True | _ \<Rightarrow> False))"

definition download_verdict ::
  "failure + (string list \<times> int \<times> int) \<Rightarrow> message list \<Rightarrow> failure + unit \<Rightarrow> message list \<Rightarrow> bool" where
  "download_verdict r2 new2 r new =
     (case r2 of
        Inl e \<Rightarrow> r = Inl e \<and> new = new2
      | Inr (httpResponse, httpStatus, elapsed) \<Rightarrow>
          if httpStatus \<noteq> 200
          then r = Inl (SystemExit 1)
               \<and> new = [download_failed_message httpStatus elapsed httpResponse]
          else r = Inr () \<and> new = [])"


definition ex_fs_none :: filesystem where
  "ex_fs_none = (\<lambda>p. None)"

text \<open>An environment with a login and no password, and a world whose process answers the
  index fetch with \<open>r1\<close> and the bulk fetch with \<open>r2\<close>.\<close>

definition ex_env_login :: "string \<Rightarrow> string option" where
  "ex_env_login = (\<lambda>k. if k = ''NEXUS_LOGIN'' then Some ''bob'' else None)"

definition ex_world_login :: world where
  "ex_world_login = \<lparr>environ = ex_env_login, getpass = None,
                     run_process = (\<lambda>cmd f. ex_reply ''204'')\<rparr>"

definition ex_world2 :: "proc_result \<Rightarrow> proc_result \<Rightarrow> world" where
  "ex_world2 r1 r2 =
     \<lparr>environ = ex_env, getpass = None,
      run_process = (\<lambda>cmd f. if ''--remote-name-all'' \<in> set cmd then r2 else r1)\<rparr>"

definition ex_index :: proc_result where
  "ex_index = Completed 0 (Utf8 ''r-1.0-a.b\<newline>\<newline>**http_status=200\<newline>'') 5"

text \<open>What \<open>do_download\<close> makes of the result \<open>r1\<close> of its index fetch when it ends there
  (lines 141 to 147, and a bulk fetch that ends before its process is started).\<close>

definition index_verdict ::
  "failure + (string list \<times> int \<times> int) \<Rightarrow> message list \<Rightarrow> failure + unit \<Rightarrow> message list \<Rightarrow> bool" where
  "index_verdict r1 new1 r new =
     (case r1 of
        Inl e \<Rightarrow> r = Inl e \<and> new = new1
      | Inr (fileNames, httpStatus, elapsed) \<Rightarrow>
          if httpStatus \<noteq> 200 then r = Inl (SystemExit 1) \<and> new = [index_failed_message]
          else if fileNames = [] then r = Inl (SystemExit 1) \<and> new = [empty_index_message]
          else (\<exists>e. r = Inl e \<and> e \<noteq> SystemExit 1) \<and> new = [])"

text \<open>The upload of the directory \<open>r\<close> in a world whose process does \<open>res\<close>.\<close>

definition ex_upload :: "proc_result \<Rightarrow> (failure + unit) \<times> state" where
  "ex_upload res = do_upload (ex_world res) ex_state"


text \<open>A download of \<open>r\<close> into an empty file system.\<close>

definition ex_download :: state where
  "ex_download = init (ex_args ''download'' ''r'') ex_fs_none"

section \<open>Strings: splitting, joining, numbering\<close>


lemma split_nonempty: "split sep s \<noteq> []"
  by (induction s) auto

lemma join_Cons_Cons: "join sep ((c # x) # xs) = c # join sep (x # xs)"
  by (cases xs) auto

lemma join_split: "join [sep] (split sep s) = s"
proof (induction s)
  case Nil
  then show ?case by simp
next
  case (Cons c cs)
  obtain x xs where r: "split sep cs = x # xs"
    using split_nonempty [of sep cs] by (cases "split sep cs") auto
  with Cons show ?case by (auto simp: join_Cons_Cons)
qed

lemma split_parts_free: "p \<in> set (split sep s) \<Longrightarrow> sep \<notin> set p"
proof (induction s arbitrary: p)
  case Nil
  then show ?case by simp
next
  case (Cons c cs)
  obtain x xs where r: "split sep cs = x # xs"
    using split_nonempty [of sep cs] by (cases "split sep cs") auto
  with Cons show ?case by (auto split: if_splits)
qed

lemma length_split: "length (split sep s) = Suc (length (filter (\<lambda>c. c = sep) s))"
proof (induction s)
  case Nil
  then show ?case by simp
next
  case (Cons c cs)
  obtain x xs where r: "split sep cs = x # xs"
    using split_nonempty [of sep cs] by (cases "split sep cs") auto
  with Cons show ?case by auto
qed

lemma split_short: "length (split sep s) < 2 \<longleftrightarrow> sep \<notin> set s"
  by (auto simp: length_split filter_empty_conv less_Suc_eq_le)

lemma join_butlast_last:
  "2 \<le> length ps \<Longrightarrow> join sep (butlast ps) @ sep @ last ps = join sep ps"
proof (induction sep ps rule: join.induct)
  case (3 sep p q ps)
  then show ?case by (cases ps) auto
qed auto

lemma name_decomposition:
  assumes "sep \<in> set s"
  shows "join [sep] (butlast (split sep s)) @ [sep] @ last (split sep s) = s"
    and "sep \<notin> set (last (split sep s))"
proof -
  have len: "2 \<le> length (split sep s)"
    using assms split_short [of sep s] by simp
  show "join [sep] (butlast (split sep s)) @ [sep] @ last (split sep s) = s"
    using join_butlast_last [OF len, of "[sep]"] by (simp add: join_split)
  show "sep \<notin> set (last (split sep s))"
    using split_parts_free [of "last (split sep s)" sep s] split_nonempty [of sep s] by simp
qed

lemma digit_val_digit_char: "d < 10 \<Longrightarrow> digit_val (digit_char d) = d"
proof -
  assume "d < 10"
  then have "d \<in> {0, 1, 2, 3, 4, 5, 6, 7, 8, 9}" by auto
  then show ?thesis by (auto simp: digit_val_def digit_char_def)
qed

lemma is_digit_digit_char: "d < 10 \<Longrightarrow> is_digit (digit_char d)"
proof -
  assume "d < 10"
  then have "d \<in> {0, 1, 2, 3, 4, 5, 6, 7, 8, 9}" by auto
  then show ?thesis by (auto simp: is_digit_def digit_char_def)
qed

lemma nat_of_digits_snoc: "nat_of_digits (ds @ [c]) = 10 * nat_of_digits ds + digit_val c"
  by (simp add: nat_of_digits_def)

lemma nat_of_digits_str_nat: "nat_of_digits (str_nat n) = n"
proof (induction n rule: str_nat.induct)
  case (1 n)
  show ?case
  proof (cases "n < 10")
    case True
    then show ?thesis
      using digit_val_digit_char [of n] by (simp add: str_nat.simps [of n] nat_of_digits_def)
  next
    case False
    then show ?thesis
      using 1 digit_val_digit_char [of "n mod 10"]
      by (simp add: str_nat.simps [of n] nat_of_digits_snoc)
  qed
qed

lemma str_nat_inj: "str_nat j = str_nat k \<Longrightarrow> j = k"
  by (metis nat_of_digits_str_nat)

lemma str_nat_digits: "c \<in> set (str_nat n) \<Longrightarrow> is_digit c"
proof (induction n rule: str_nat.induct)
  case (1 n)
  show ?case
  proof (cases "n < 10")
    case True
    then show ?thesis
      using 1(2) is_digit_digit_char [of n] by (simp add: str_nat.simps [of n])
  next
    case False
    then show ?thesis
      using 1 is_digit_digit_char [of "n mod 10"]
      by (auto simp add: str_nat.simps [of n])
  qed
qed


lemma takeWhile_digits:
  "sfx \<in> suffixes \<Longrightarrow> takeWhile is_digit (str_nat k @ sfx) = str_nat k"
  using str_nat_digits [of _ k]
  by (auto simp: suffixes_def takeWhile_append2 is_digit_def)

lemma asset_key_inj:
  assumes "x \<in> suffixes" "y \<in> suffixes" "asset_key j @ x = asset_key k @ y"
  shows "j = k \<and> x = y"
proof -
  from assms(3) have e: "str_nat j @ x = str_nat k @ y"
    by (simp add: asset_key_def)
  then have "takeWhile is_digit (str_nat j @ x) = takeWhile is_digit (str_nat k @ y)"
    by simp
  then have "str_nat j = str_nat k"
    using assms(1,2) by (simp add: takeWhile_digits)
  then show ?thesis using e str_nat_inj by auto
qed

lemma asset_key_not_base:
  "asset_key k @ x \<noteq> ''maven2.artifactId''" "asset_key k @ x \<noteq> ''maven2.version''"
  "asset_key k @ x \<noteq> ''maven2.groupId''"
  by (simp_all add: asset_key_def)


lemma asset_key_not_base0:
  "asset_key k \<noteq> ''maven2.artifactId''" "asset_key k \<noteq> ''maven2.version''"
  "asset_key k \<noteq> ''maven2.groupId''"
  "''maven2.artifactId'' \<noteq> asset_key k" "''maven2.version'' \<noteq> asset_key k"
  "''maven2.groupId'' \<noteq> asset_key k"
  by (simp_all add: asset_key_def)

lemma logging_apply:
  "lvl \<noteq> DEBUG \<Longrightarrow> logging lvl msg s = (Inr (), s\<lparr>logs := logs s @ [(lvl, msg)]\<rparr>)"
  by (simp add: logging_def)

lemma die_apply: "die msg s = (Inl (SystemExit 1), s\<lparr>logs := logs s @ [(ERROR, msg)]\<rparr>)"
  by (simp add: die_def bind_def raise_def logging_def)

lemma scan_entry_asset:
  assumes "eligible file"
    "map_of (data sc) ''maven2.artifactId'' = Some a"
    "map_of (data sc) ''maven2.version'' = Some v"
  shows "scan_entry dp file sc s =
     (Inr \<lparr>data = set_asset dp (assetIdx sc) file (data sc),
           idxEntries = idxEntries sc @ [index_line a v file @ [LF]],
           assetIdx = assetIdx sc + 1\<rparr>, s)"
  using assms split_short [of "CHR ''.''" "entry_name file"]
  by (simp add: scan_entry_def Let_def bind_def ret_def getitem_def update_conv'
      asset_key_not_base asset_key_not_base0 raise_def eligible_def set_asset_def
      index_line_def classifier_def extension_def)

lemma scan_entry_skip:
  assumes "\<not> eligible file"
  shows "scan_entry dp file sc s = (Inr sc, s\<lparr>logs := logs s @ entry_log file\<rparr>)"
  using assms split_short [of "CHR ''.''" "entry_name file"]
  by (auto simp: scan_entry_def bind_def ret_def logging_apply eligible_def entry_log_def)

lemma entry_log_eligible: "eligible file \<Longrightarrow> entry_log file = []"
  by (simp add: eligible_def entry_log_def)

lemma set_asset_base:
  "map_of (set_asset dp k file d) ''maven2.artifactId'' = map_of d ''maven2.artifactId''"
  "map_of (set_asset dp k file d) ''maven2.version'' = map_of d ''maven2.version''"
  "map_of (set_asset dp k file d) ''maven2.groupId'' = map_of d ''maven2.groupId''"
  by (simp_all add: set_asset_def update_conv' asset_key_not_base asset_key_not_base0)

lemma scan_entries_eq:
  assumes "map_of (data sc) ''maven2.artifactId'' = Some a"
    "map_of (data sc) ''maven2.version'' = Some v"
  shows "scan_entries dp es sc s =
     (Inr \<lparr>data = set_assets dp (assetIdx sc) (filter eligible es) (data sc),
           idxEntries = idxEntries sc @ map (\<lambda>f. index_line a v f @ [LF]) (filter eligible es),
           assetIdx = assetIdx sc + length (filter eligible es)\<rparr>,
      s\<lparr>logs := logs s @ concat (map entry_log es)\<rparr>)"
  using assms
proof (induction es arbitrary: sc s)
  case Nil
  then show ?case by (simp add: ret_def)
next
  case (Cons e es)
  show ?case
  proof (cases "eligible e")
    case True
    let ?sc1 = "\<lparr>data = set_asset dp (assetIdx sc) e (data sc),
           idxEntries = idxEntries sc @ [index_line a v e @ [LF]],
           assetIdx = assetIdx sc + 1\<rparr>"
    have step: "scan_entry dp e sc s = (Inr ?sc1, s)"
      using True Cons.prems by (rule scan_entry_asset)
    have "map_of (data ?sc1) ''maven2.artifactId'' = Some a"
      "map_of (data ?sc1) ''maven2.version'' = Some v"
      using Cons.prems by (simp_all add: set_asset_base)
    from Cons.IH [OF this] show ?thesis
      using True step by (simp add: bind_def entry_log_eligible)
  next
    case False
    have step: "scan_entry dp e sc s = (Inr sc, s\<lparr>logs := logs s @ entry_log e\<rparr>)"
      using False by (rule scan_entry_skip)
    from Cons.IH [OF Cons.prems] show ?thesis
      using False step by (simp add: bind_def)
  qed
qed


lemma asset_keys_self: "x \<in> suffixes \<Longrightarrow> asset_key k @ x \<in> asset_keys k 1"
  unfolding asset_keys_def by (rule CollectI, rule exI [of _ k], rule exI [of _ x]) simp

lemma asset_keys_mono:
  assumes "k \<le> k'" "k' + n' \<le> k + n"
  shows "asset_keys k' n' \<subseteq> asset_keys k n"
proof
  fix t
  assume "t \<in> asset_keys k' n'"
  then obtain j x where h: "t = asset_key j @ x" "k' \<le> j" "j < k' + n'" "x \<in> suffixes"
    unfolding asset_keys_def by blast
  with assms have "k \<le> j \<and> j < k + n" by simp
  with h(1,4) show "t \<in> asset_keys k n"
    unfolding asset_keys_def by blast
qed

lemma set_asset_other:
  assumes "key \<notin> asset_keys k 1"
  shows "map_of (set_asset dp k file d) key = map_of d key"
proof -
  have "key \<noteq> asset_key k @ x" if "x \<in> suffixes" for x
    using assms asset_keys_self [OF that] by metis
  from this [of "[]"] this [of "''.classifier''"] this [of "''.extension''"]
  show ?thesis by (simp add: set_asset_def update_conv' suffixes_def)
qed

lemma set_assets_other:
  "key \<notin> asset_keys k (length files) \<Longrightarrow> map_of (set_assets dp k files d) key = map_of d key"
proof (induction files arbitrary: k d)
  case Nil
  then show ?case by simp
next
  case (Cons f files)
  have "asset_keys k 1 \<subseteq> asset_keys k (length (f # files))"
    "asset_keys (Suc k) (length files) \<subseteq> asset_keys k (length (f # files))"
    by (rule asset_keys_mono; simp)+
  with Cons.prems have "key \<notin> asset_keys k 1" "key \<notin> asset_keys (Suc k) (length files)"
    by auto
  then show ?case using Cons.IH by (simp add: set_asset_other)
qed

lemma asset_key_notin_later:
  assumes "x \<in> suffixes" "j < k"
  shows "asset_key j @ x \<notin> asset_keys k n"
proof
  assume "asset_key j @ x \<in> asset_keys k n"
  then obtain j' x' where h: "asset_key j @ x = asset_key j' @ x'" "k \<le> j'" "x' \<in> suffixes"
    unfolding asset_keys_def by blast
  from asset_key_inj [OF assms(1) h(3) h(1)] have "j = j'" by simp
  with h(2) assms(2) show False by simp
qed

lemma set_asset_self:
  "map_of (set_asset dp k file d) (asset_key k) = Some (CHR ''@'' # path_join dp (entry_name file))"
  "map_of (set_asset dp k file d) (asset_key k @ ''.classifier'') = Some (classifier (entry_name file))"
  "map_of (set_asset dp k file d) (asset_key k @ ''.extension'') = Some (extension (entry_name file))"
  by (simp_all add: set_asset_def update_conv')

lemma set_assets_nth:
  assumes "i < length files"
  shows "map_of (set_assets dp k files d) (asset_key (k + i))
           = Some (CHR ''@'' # path_join dp (entry_name (files ! i)))
       \<and> map_of (set_assets dp k files d) (asset_key (k + i) @ ''.classifier'')
           = Some (classifier (entry_name (files ! i)))
       \<and> map_of (set_assets dp k files d) (asset_key (k + i) @ ''.extension'')
           = Some (extension (entry_name (files ! i)))"
  using assms
proof (induction files arbitrary: k d i)
  case Nil
  then show ?case by simp
next
  case (Cons f files)
  show ?case
  proof (cases i)
    case 0
    have "asset_key k @ x \<notin> asset_keys (Suc k) (length files)" if "x \<in> suffixes" for x
      using that by (simp add: asset_key_notin_later)
    from this [of "[]"] this [of "''.classifier''"] this [of "''.extension''"]
    show ?thesis using 0
      by (simp add: set_assets_other set_asset_self suffixes_def)
  next
    case (Suc j)
    with Cons.prems have "j < length files" by simp
    from Cons.IH [OF this, of "Suc k" "set_asset dp k f d"] show ?thesis
      using Suc by simp
  qed
qed

lemma set_assets_dom:
  "(map_of (set_assets dp k files d) key \<noteq> None)
     = (map_of d key \<noteq> None \<or> key \<in> asset_keys k (length files))"
proof (cases "key \<in> asset_keys k (length files)")
  case False
  then show ?thesis by (simp add: set_assets_other)
next
  case True
  then obtain j x where jx: "key = asset_key j @ x" "k \<le> j" "j < k + length files"
    "x \<in> suffixes"
    unfolding asset_keys_def by blast
  define i where "i = j - k"
  with jx(2,3) have i: "j = k + i" "i < length files"
    by simp_all
  from set_assets_nth [OF i(2), of dp k d] jx(1,4) i(1) True show ?thesis
    by (auto simp: suffixes_def)
qed


section \<open>The directory scan and the index file\<close>

lemma set_assets_base:
  "map_of (set_assets dp k files d) ''maven2.artifactId'' = map_of d ''maven2.artifactId''"
  "map_of (set_assets dp k files d) ''maven2.version'' = map_of d ''maven2.version''"
  "map_of (set_assets dp k files d) ''maven2.groupId'' = map_of d ''maven2.groupId''"
  by (induction files arbitrary: k d) (simp_all add: set_asset_base)

lemma upload_prepare_eq:
  "upload_prepare s =
     (if fs s (upload_directory s) = None
      then (Inl (SystemExit 1),
            s\<lparr>logs := logs s @ upload_log1 s
                 @ [(ERROR, nofile_message (upload_directory s))]\<rparr>)
      else if (\<exists>c. fs s (upload_directory s) = Some (File c))
      then (Inl (SystemExit 1),
            s\<lparr>logs := logs s @ upload_log1 s @ [(ERROR, notdir_message)]\<rparr>)
      else if CHR ''.'' \<in> set (upload_directory s)
      then (Inl (SystemExit 1), s\<lparr>logs := logs s @ upload_log1 s @ [(ERROR, dot_message)]\<rparr>)
      else
        (case fs s (arg_directory (sargs s)) of
           None \<Rightarrow> (Inl FileNotFoundError, s\<lparr>logs := logs s @ upload_log1 s @ upload_log2 s\<rparr>)
         | Some (File _) \<Rightarrow>
             (Inl NotADirectoryError, s\<lparr>logs := logs s @ upload_log1 s @ upload_log2 s\<rparr>)
         | Some (Dir es) \<Rightarrow>
             (if (\<exists>d. fs s (index_path s) = Some (Dir d))
              then (Inl IsADirectoryError,
                    s\<lparr>logs := logs s @ upload_log1 s @ upload_log2 s @ concat (map entry_log es)\<rparr>)
              else (Inr (index_path s, upload_data3 s es),
                    s\<lparr>logs := logs s @ upload_log1 s @ upload_log2 s @ concat (map entry_log es),
                      fs := (fs s)(index_path s \<mapsto> File (index_content s es))\<rparr>))))"
proof -
  let ?sc = "\<lparr>data = upload_data1 s, idxEntries = [], assetIdx = 2\<rparr>"
  have scan: "scan_entries (arg_directory (sargs s)) es ?sc t =
     (Inr \<lparr>data = set_assets (arg_directory (sargs s)) 2 (filter eligible es) (upload_data1 s),
           idxEntries = map (\<lambda>f. index_line (basename (upload_directory s)) (upload_version s) f
                                  @ [LF]) (filter eligible es),
           assetIdx = 2 + length (filter eligible es)\<rparr>,
      t\<lparr>logs := logs t @ concat (map entry_log es)\<rparr>)" for es t
    using scan_entries_eq [of ?sc "basename (upload_directory s)" "upload_version s"
        "arg_directory (sargs s)" es t]
    by (simp add: upload_data1_def)
  have d1: "AList.update ''maven2.artifactId'' (basename (upload_directory s))
       [(''maven2.groupId'', get_groupId (sargs s)),
        (''maven2.version'', case arg_version (sargs s) of Some v \<Rightarrow> v | None \<Rightarrow> ''1.0'')]
      = upload_data1 s"
    by (simp add: upload_data1_def upload_version_def)
  have look: "map_of (upload_data1 s) ''maven2.groupId'' = Some (get_groupId (sargs s))"
    "map_of (upload_data1 s) ''maven2.artifactId'' = Some (basename (upload_directory s))"
    by (simp_all add: upload_data1_def)
  have dir: "(case fs s (upload_directory s) of Some (Dir x) \<Rightarrow> True | _ \<Rightarrow> False)
      = (fs s (upload_directory s) \<noteq> None \<and> \<not> (\<exists>c. fs s (upload_directory s) = Some (File c)))"
    by (simp split: option.splits node.splits)
  have opn: "(case fs t p of Some (Dir x) \<Rightarrow> (Inl IsADirectoryError, t)
              | _ \<Rightarrow> (Inr (), t\<lparr>fs := (fs t)(p \<mapsto> File [])\<rparr>))
      = (if (\<exists>d. fs t p = Some (Dir d)) then (Inl IsADirectoryError, t)
         else (Inr (), t\<lparr>fs := (fs t)(p \<mapsto> File [])\<rparr>))" for t p
    by (simp split: option.splits node.splits)
  show ?thesis
  proof (cases "fs s (arg_directory (sargs s))")
    case None
    then show ?thesis
      unfolding upload_prepare_def
      by (simp add: bind_def get_args_def Let_def upload_directory_def [symmetric] d1 look dir
          logging_apply path_exists_def path_isdir_def die_apply getitem_def ret_def
          scandir_def upload_log1_def upload_log2_def)
  next
    case (Some n)
    show ?thesis
    proof (cases n)
      case (File c)
      with Some show ?thesis
        unfolding upload_prepare_def
        by (simp add: bind_def get_args_def Let_def upload_directory_def [symmetric] d1 look dir
            logging_apply path_exists_def path_isdir_def die_apply getitem_def ret_def
            scandir_def upload_log1_def upload_log2_def)
    next
      case (Dir es)
      with Some show ?thesis
        unfolding upload_prepare_def
        by (simp add: bind_def get_args_def Let_def upload_directory_def [symmetric] d1 look dir
            logging_apply path_exists_def path_isdir_def die_apply getitem_def ret_def
            scandir_def upload_log1_def upload_log2_def
            scan [unfolded upload_data1_def upload_version_def] set_assets_base
            upload_data1_def upload_version_def
            open_w_def opn writelines_def index_path_def upload_data3_def index_content_def)
    qed
  qed
qed


lemma upload_prepare_Inr:
  assumes "upload_prepare s = (Inr (p, d), s')"
  obtains es where "fs s (arg_directory (sargs s)) = Some (Dir es)"
    and "p = index_path s" and "d = upload_data3 s es"
    and "s' = s\<lparr>logs := logs s @ upload_log1 s @ upload_log2 s @ concat (map entry_log es),
                  fs := (fs s)(index_path s \<mapsto> File (index_content s es))\<rparr>"
    and "CHR ''.'' \<notin> set (upload_directory s)"
    and "\<exists>x. fs s (upload_directory s) = Some (Dir x)"
proof -
  from assms have "\<exists>es. fs s (arg_directory (sargs s)) = Some (Dir es)
      \<and> p = index_path s \<and> d = upload_data3 s es
      \<and> s' = s\<lparr>logs := logs s @ upload_log1 s @ upload_log2 s @ concat (map entry_log es),
                  fs := (fs s)(index_path s \<mapsto> File (index_content s es))\<rparr>
      \<and> CHR ''.'' \<notin> set (upload_directory s)
      \<and> (\<exists>x. fs s (upload_directory s) = Some (Dir x))"
    unfolding upload_prepare_eq
    apply (auto split: if_splits option.splits node.splits)
    subgoal for y by (cases y) auto
    done
  then show ?thesis using that by blast
qed

lemma asset_key_1: "asset_key (Suc 0) = ''maven2.asset1''" "asset_key 1 = ''maven2.asset1''"
  by (simp_all add: asset_key_def str_nat.simps digit_char_def)

lemma asset_key_in_keys:
  assumes "x \<in> suffixes"
  shows "(asset_key j @ x \<in> asset_keys k n) = (k \<le> j \<and> j < k + n)"
proof
  assume "asset_key j @ x \<in> asset_keys k n"
  then obtain j' x' where h: "asset_key j @ x = asset_key j' @ x'" "k \<le> j'" "j' < k + n"
    "x' \<in> suffixes"
    unfolding asset_keys_def by blast
  from asset_key_inj [OF assms h(4) h(1)] h(2,3) show "k \<le> j \<and> j < k + n" by simp
next
  assume "k \<le> j \<and> j < k + n"
  with assms show "asset_key j @ x \<in> asset_keys k n"
    unfolding asset_keys_def by blast
qed

lemma upload_data1_no_asset: "x \<in> suffixes \<Longrightarrow> map_of (upload_data1 s) (asset_key k @ x) = None"
  using asset_key_not_base [of k x] by (auto simp: upload_data1_def)

lemma upload_data3_lookup:
  "map_of (upload_data3 s es) key =
     (if key = ''maven2.asset1.extension'' then Some ''txt''
      else if key = ''maven2.asset1'' then Some (CHR ''@'' # index_path s)
      else map_of (set_assets (arg_directory (sargs s)) 2 (filter eligible es) (upload_data1 s)) key)"
  by (simp add: upload_data3_def update_conv')

lemma asset_key_is_asset1:
  assumes "x \<in> suffixes" "y \<in> suffixes"
  shows "(asset_key k @ x = ''maven2.asset1'' @ y) = (k = 1 \<and> x = y)"
  using asset_key_inj [OF assms, of k 1] by (auto simp: asset_key_1 simp del: One_nat_def)

lemma upload_data3_assets:
  "(map_of (upload_data3 s es) (asset_key k) \<noteq> None)
     = (1 \<le> k \<and> k \<le> length (filter eligible es) + 1)"
proof -
  have a: "(asset_key k = ''maven2.asset1'') = (k = 1)"
    "asset_key k \<noteq> ''maven2.asset1.extension''"
    using asset_key_is_asset1 [of "[]" "[]" k] asset_key_is_asset1 [of "[]" "''.extension''" k]
    by (simp_all add: suffixes_def)
  have b: "(asset_key k \<in> asset_keys 2 n) = (2 \<le> k \<and> k < 2 + n)" for n
    using asset_key_in_keys [of "[]" k 2 n] by (simp add: suffixes_def)
  have c: "map_of (upload_data1 s) (asset_key k) = None"
    using upload_data1_no_asset [of "[]" s k] by (simp add: suffixes_def)
  have d: "(map_of (set_assets (arg_directory (sargs s)) 2 (filter eligible es) (upload_data1 s))
              (asset_key k) \<noteq> None)
           = (2 \<le> k \<and> k < 2 + length (filter eligible es))"
    by (simp only: set_assets_dom b c) simp
  show ?thesis
  proof (cases "k = 1")
    case True
    then show ?thesis by (simp add: upload_data3_lookup asset_key_1)
  next
    case False
    then have "(map_of (upload_data3 s es) (asset_key k) \<noteq> None)
           = (2 \<le> k \<and> k < 2 + length (filter eligible es))"
      using a d by (simp only: upload_data3_lookup if_False)
    with False show ?thesis by auto
  qed
qed

lemma upload_data3_nth:
  assumes "i < length (filter eligible es)"
  shows "map_of (upload_data3 s es) (asset_key (i + 2))
           = Some (CHR ''@'' # path_join (arg_directory (sargs s)) (entry_name (filter eligible es ! i)))
       \<and> map_of (upload_data3 s es) (asset_key (i + 2) @ ''.classifier'')
           = Some (classifier (entry_name (filter eligible es ! i)))
       \<and> map_of (upload_data3 s es) (asset_key (i + 2) @ ''.extension'')
           = Some (extension (entry_name (filter eligible es ! i)))"
proof -
  have a: "asset_key (i + 2) @ x \<noteq> ''maven2.asset1'' @ y" if "x \<in> suffixes" "y \<in> suffixes" for x y
    using asset_key_is_asset1 [OF that, of "i + 2"] by simp
  have n: "asset_key (i + 2) \<noteq> ''maven2.asset1''"
    "asset_key (i + 2) \<noteq> ''maven2.asset1.extension''"
    "asset_key (i + 2) @ ''.classifier'' \<noteq> ''maven2.asset1''"
    "asset_key (i + 2) @ ''.classifier'' \<noteq> ''maven2.asset1.extension''"
    "asset_key (i + 2) @ ''.extension'' \<noteq> ''maven2.asset1''"
    "asset_key (i + 2) @ ''.extension'' \<noteq> ''maven2.asset1.extension''"
    using a [of "[]" "[]"] a [of "[]" "''.extension''"]
      a [of "''.classifier''" "[]"] a [of "''.classifier''" "''.extension''"]
      a [of "''.extension''" "[]"] a [of "''.extension''" "''.extension''"]
    by (simp_all add: suffixes_def)
  from set_assets_nth [OF assms, of "arg_directory (sargs s)" 2 "upload_data1 s"] n
  show ?thesis
    by (simp add: upload_data3_lookup)
qed


lemma ex_prepare: "fst (upload_prepare ex_state) = Inr (''r/r.txt'', ex_data)"
  by code_simp

lemma ex_scanned:
  "fs ex_state (arg_directory (sargs ex_state)) =
     Some (Dir [DirEntry ''a.b'' RegularFile, DirEntry ''.h'' RegularFile,
                DirEntry ''sub'' Directory, DirEntry ''README'' RegularFile])"
  by (simp add: ex_state_def init_def ex_args_def ex_fs_def)

section \<open>The response parser on an index file\<close>

lemma LF_linebreak: "is_linebreak LF" "LF \<noteq> CR"
  by (simp_all add: is_linebreak_def LF_def CR_def)

lemma splitlines_from_LF: "splitlines_from cur (LF # rest) = cur # splitlines_from [] rest"
  using LF_linebreak by (simp split: list.split)

lemma splitlines_from_line:
  "\<forall>c\<in>set l. \<not> is_linebreak c
   \<Longrightarrow> splitlines_from cur (l @ LF # rest) = (cur @ l) # splitlines_from [] rest"
proof (induction l arbitrary: cur)
  case Nil
  then show ?case by (simp add: splitlines_from_LF del: splitlines_from.simps)
next
  case (Cons c l)
  then show ?case by simp
qed

lemma splitlines_from_lines:
  "\<forall>l\<in>set ls. \<forall>c\<in>set l. \<not> is_linebreak c
   \<Longrightarrow> splitlines_from [] (concat (map (\<lambda>l. l @ [LF]) ls) @ rest)
         = ls @ splitlines_from [] rest"
proof (induction ls)
  case Nil
  then show ?case by simp
next
  case (Cons l ls)
  then show ?case
    using splitlines_from_line [of l "[]" "concat (map (\<lambda>l. l @ [LF]) ls) @ rest"]
    by simp
qed

lemma dropWhile_hd: "l \<noteq> [] \<Longrightarrow> \<not> P (hd l) \<Longrightarrow> dropWhile P l = l"
  by (cases l) auto

lemma strip_clean:
  assumes "l \<noteq> []" "\<not> is_space (hd l)" "\<not> is_space (last l)"
  shows "strip l = l"
proof -
  have "dropWhile is_space l = l"
    using assms(1,2) by (rule dropWhile_hd)
  moreover have "dropWhile is_space (rev l) = rev l"
    using assms(1,3) by (intro dropWhile_hd) (simp_all add: hd_rev)
  ultimately show ?thesis by (simp add: strip_def strip_chars_def)
qed

lemma resp_lines_lines:
  assumes "\<forall>l\<in>set ls. clean_line l \<and> l \<noteq> []"
  shows "resp_lines (concat (map (\<lambda>l. l @ [LF]) ls) @ rest) = ls @ resp_lines rest"
proof -
  have a: "map strip ls = ls"
    using assms by (simp add: map_idI strip_clean clean_line_def)
  have b: "filter (\<lambda>l. l \<noteq> []) ls = ls"
    using assms by (simp add: filter_id_conv)
  show ?thesis
    using assms splitlines_from_lines [of ls rest]
    by (simp add: resp_lines_def splitlines_def clean_line_def a b)
qed

lemma trailer_200:
  "resp_lines ''\<newline>**http_status=200\<newline>'' = [''**http_status=200'']"
  "split CHR ''='' ''**http_status=200'' = [''**http_status'', ''200'']"
  "py_int ''200'' = Inr 200"
  by code_simp+

lemma parse_status_200: "parse_status (ls @ [''**http_status=200'']) = Inr 200"
  by (simp add: parse_status_def trailer_200 Let_def del: split.simps)

lemma curl_response_200:
  assumes "\<forall>l\<in>set ls. clean_line l \<and> l \<noteq> []"
  shows "curl_response 0 (Utf8 (concat (map (\<lambda>l. l @ [LF]) ls) @ ''\<newline>**http_status=200\<newline>'')) el t
         = (Inr (ls, 200, el), t)"
  using resp_lines_lines [OF assms, of "''\<newline>**http_status=200\<newline>''"]
  by (simp add: curl_response_def decode_def lift_def bind_def ret_def Let_def
      trailer_200 parse_status_200 del: split.simps)

lemma index_line_nonempty: "index_line a v f \<noteq> []"
  by (simp add: index_line_def)

lemma upload_data3_base:
  "map_of (upload_data3 s es) ''maven2.artifactId'' = Some (basename (upload_directory s))"
  "map_of (upload_data3 s es) ''maven2.version'' = Some (upload_version s)"
  by (simp_all add: upload_data3_lookup set_assets_base upload_data1_def)

section \<open>The transport\<close>

lemma errors_simps:
  "errors (s\<lparr>logs := l\<rparr>) = map snd (filter (\<lambda>e. fst e = ERROR) l)"
  "errors (s\<lparr>fs := f\<rparr>) = errors s"
  "errors (s\<lparr>calls := c\<rparr>) = errors s"
  "errors (s\<lparr>sargs := a\<rparr>) = errors s"
  "errors (s\<lparr>debug_on := b\<rparr>) = errors s"
  by (simp_all add: errors_def)

lemma logging_frame:
  assumes "logging lvl msg s = (r, s')"
  shows "r = Inr () \<and> fs s' = fs s \<and> calls s' = calls s \<and> sargs s' = sargs s
         \<and> debug_on s' = debug_on s
         \<and> errors s' = (if lvl = ERROR then errors s @ [msg] else errors s)"
  using assms by (auto simp: logging_def errors_def split: if_splits)

lemma die_frame:
  assumes "die msg s = (r, s')"
  shows "r = Inl (SystemExit 1) \<and> fs s' = fs s \<and> calls s' = calls s \<and> sargs s' = sargs s
         \<and> debug_on s' = debug_on s \<and> errors s' = errors s @ [msg]"
  using assms by (auto simp: die_apply errors_def)

lemma get_auth_eq:
  "get_auth w s =
     (case arg_login (sargs s) of
        Some l \<Rightarrow>
          (case arg_passwd (sargs s) of
             Some p \<Rightarrow> (Inr (Some (l @ '':'' @ p)), s)
           | None \<Rightarrow>
               (case getpass w of
                  None \<Rightarrow> (Inl EOFError, s)
                | Some p \<Rightarrow>
                    (Inr (Some (l @ '':'' @ p)), s\<lparr>sargs := (sargs s)\<lparr>arg_passwd := Some p\<rparr>\<rparr>)))
      | None \<Rightarrow>
          (case environ w ''NEXUS_LOGIN'' of
             Some l \<Rightarrow>
               (case environ w ''NEXUS_PASSWD'' of
                  Some p \<Rightarrow>
                    (Inr (Some (l @ '':'' @ p)),
                     s\<lparr>sargs := (sargs s)\<lparr>arg_login := Some l, arg_passwd := Some p\<rparr>\<rparr>)
                | None \<Rightarrow>
                    (Inl (SystemExit 1),
                     s\<lparr>sargs := (sargs s)\<lparr>arg_login := Some l\<rparr>,
                       logs := logs s @ [(ERROR, passwd_message)]\<rparr>))
           | None \<Rightarrow> (Inr None, s)))"
  by (simp add: get_auth.simps [of w s] get_auth.simps [of w "s\<lparr>sargs := x\<rparr>" for x]
      die_apply split: option.splits)

lemma get_auth_frame:
  assumes "get_auth w s = (r, s')"
  shows "fs s' = fs s \<and> calls s' = calls s \<and> debug_on s' = debug_on s
     \<and> (if password_missing w s
         then r = Inl (SystemExit 1) \<and> errors s' = errors s @ [passwd_message]
         else r \<noteq> Inl (SystemExit 1) \<and> errors s' = errors s
              \<and> ((\<exists>a. r = Inr a) \<longrightarrow> \<not> password_missing w s'))"
  using assms unfolding get_auth_eq password_missing_def
  by (auto simp: errors_def split: option.splits)

lemma curl_response_cases:
  assumes "curl_response rc out el s = (r, s')"
  shows "fs s' = fs s \<and> calls s' = calls s \<and> debug_on s' = debug_on s \<and> sargs s' = sargs s
     \<and> (\<exists>new. errors s' = errors s @ new \<and> verdict (Completed rc out el) r new)"
proof (cases "rc = 0")
  case False
  with assms show ?thesis
    by (auto simp: curl_response_def die_apply errors_def verdict_def)
next
  case True
  show ?thesis
  proof (cases "decode out")
    case (Inl e)
    then have "e = UnicodeDecodeError"
      by (auto simp: decode_def split: bytes.splits)
    with assms True Inl show ?thesis
      by (auto simp: curl_response_def http_status_def bind_def lift_def verdict_def)
  next
    case (Inr tx)
    show ?thesis
    proof (cases "\<exists>st. parse_status (resp_lines tx) = Inr st")
      case False
      then obtain e where e: "parse_status (resp_lines tx) = Inl e"
        by (cases "parse_status (resp_lines tx)") auto
      then have "e \<noteq> SystemExit 1"
        by (auto simp: parse_status_def py_int_def Let_def split: if_splits)
      with assms True Inr e show ?thesis
        by (auto simp: curl_response_def http_status_def bind_def lift_def verdict_def)
    next
      case True
      then obtain st where "parse_status (resp_lines tx) = Inr st" by blast
      with assms \<open>rc = 0\<close> Inr show ?thesis
        by (auto simp: curl_response_def http_status_def bind_def lift_def Let_def ret_def
            die_apply errors_def verdict_def split: if_splits)
    qed
  qed
qed

lemma run_curl_cmd_cases:
  assumes "run_curl_cmd w url flds outdir s = (r, s')"
  shows "fs s' = fs s \<and> debug_on s' = debug_on s
     \<and> (if password_missing w s
         then calls s' = calls s \<and> r = Inl (SystemExit 1)
              \<and> errors s' = errors s @ [passwd_message]
         else (calls s' = calls s \<and> (\<exists>e. r = Inl e \<and> e \<noteq> SystemExit 1) \<and> errors s' = errors s)
           \<or> (\<exists>res new. call_made w url flds outdir s s' res \<and> verdict res r new
                  \<and> errors s' = errors s @ new \<and> \<not> password_missing w s'))"
proof (cases "get_auth w s")
  case (Pair ra s1)
  note ga = get_auth_frame [OF Pair]
  show ?thesis
  proof (cases ra)
    case (Inl e)
    with assms Pair have "r = Inl e" "s' = s1"
      by (auto simp: run_curl_cmd_def bind_def)
    with ga Inl show ?thesis by (auto split: if_splits)
  next
    case (Inr auth)
    let ?cmd = "curl_command auth url flds outdir"
    let ?res = "run_process w ?cmd (fs s)"
    obtain r2 s2 where l2: "logging DEBUG [Lit ''curl cmd='', ListV ?cmd] s1 = (r2, s2)"
      by fastforce
    have s2: "logging DEBUG [Lit ''curl cmd='', ListV ?cmd] s1 = (Inr (), s2)"
      "fs s2 = fs s" "calls s2 = calls s" "errors s2 = errors s" "debug_on s2 = debug_on s"
      "\<not> password_missing w s2"
      using ga Inr logging_frame [OF l2] l2 by (auto simp: password_missing_def split: if_splits)
    define s3 where "s3 = s2\<lparr>calls := calls s2 @ [(?cmd, fs s2)]\<rparr>"
    have s3: "fs s3 = fs s" "calls s3 = calls s @ [(?cmd, fs s)]" "errors s3 = errors s"
      "debug_on s3 = debug_on s" "\<not> password_missing w s3"
      using s2 by (simp_all add: s3_def errors_def password_missing_def)
    have made: "call_made w url flds outdir s t ?res" if "calls t = calls s3" for t
      using that s3 unfolding call_made_def by (intro exI [of _ auth]) simp
    have noenv: "\<not> password_missing w s"
      using ga Inr by (auto split: if_splits)
    have "fs s' = fs s \<and> debug_on s' = debug_on s
        \<and> (\<exists>res new. call_made w url flds outdir s s' res \<and> verdict res r new
                  \<and> errors s' = errors s @ new \<and> \<not> password_missing w s')"
    proof (cases ?res)
      case NoSuchProgram
      with assms Pair Inr s2 have "r = Inl FileNotFoundError" "s' = s3"
        by (auto simp: run_curl_cmd_def bind_def subprocess_run_def s3_def Let_def)
      with s3 made [of s'] NoSuchProgram show ?thesis
        by (intro conjI exI [of _ ?res] exI [of _ "[]"]) (simp_all add: verdict_def)
    next
      case TimedOut
      with assms Pair Inr s2 have "r = Inl TimeoutExpired" "s' = s3"
        by (auto simp: run_curl_cmd_def bind_def subprocess_run_def s3_def Let_def)
      with s3 made [of s'] TimedOut show ?thesis
        by (intro conjI exI [of _ ?res] exI [of _ "[]"]) (simp_all add: verdict_def)
    next
      case (Completed rc out el)
      obtain r4 s4 where l4: "logging DEBUG [Lit ''curl => status='', IntV rc, Lit '' stdout='',
                          BytesV out, Lit '' stderr='', NoneV] s3 = (r4, s4)"
        by fastforce
      have s4: "logging DEBUG [Lit ''curl => status='', IntV rc, Lit '' stdout='',
                          BytesV out, Lit '' stderr='', NoneV] s3 = (Inr (), s4)"
        "fs s4 = fs s" "calls s4 = calls s3" "errors s4 = errors s" "debug_on s4 = debug_on s"
        "\<not> password_missing w s4"
        using s3 logging_frame [OF l4] l4 by (auto simp: password_missing_def)
      from assms Pair Inr s2 s4 Completed have cr: "curl_response rc out el s4 = (r, s')"
        by (auto simp: run_curl_cmd_def bind_def subprocess_run_def s3_def Let_def)
      from curl_response_cases [OF cr] obtain new where
        c: "fs s' = fs s4" "calls s' = calls s4" "debug_on s' = debug_on s4"
          "sargs s' = sargs s4"
          "errors s' = errors s4 @ new" "verdict (Completed rc out el) r new"
        by blast
      from c s4 have pm: "\<not> password_missing w s'"
        by (simp add: password_missing_def)
      from c s4 have m: "call_made w url flds outdir s s' ?res"
        by (intro made) simp
      from c s4 m pm Completed show ?thesis
        by (intro conjI exI [of _ ?res] exI [of _ new]) simp_all
    qed
    with noenv show ?thesis by auto
  qed
qed

section \<open>The transfer of the upload\<close>

lemma entry_log_no_error: "filter (\<lambda>e. fst e = ERROR) (concat (map entry_log es)) = []"
  by (induction es) (auto simp: entry_log_def)

lemma os_remove_file:
  "fs s p = Some (File c) \<Longrightarrow> os_remove p s = (Inr (), s\<lparr>fs := (fs s)(p := None)\<rparr>)"
  by (simp add: os_remove_def)

lemma upload_transfer_cases:
  assumes "upload_transfer w p d s = (r, s')" and "fs s p = Some (File c)"
  shows "fs s' = (fs s)(p := None)
     \<and> (if password_missing w s
         then calls s' = calls s \<and> r = Inl (SystemExit 1)
              \<and> errors s' = errors s @ [passwd_message]
         else (calls s' = calls s \<and> (\<exists>e. r = Inl e \<and> e \<noteq> SystemExit 1) \<and> errors s' = errors s)
           \<or> (\<exists>res r1 new1 new. call_made w upload_target (Some d) None s s' res
                  \<and> verdict res r1 new1 \<and> upload_verdict r1 new1 r new
                  \<and> errors s' = errors s @ new))"
proof -
  obtain r1 s1 where rc: "run_curl_cmd w upload_target (Some d) None s = (r1, s1)"
    by fastforce
  note c = run_curl_cmd_cases [OF rc]
  define s2 where "s2 = s1\<lparr>fs := (fs s)(p := None)\<rparr>"
  have rm: "os_remove p s1 = (Inr (), s2)"
    using c assms(2) by (simp add: os_remove_file s2_def)
  have tf: "try_finally (run_curl_cmd w upload_target (Some d) None) (os_remove p) s = (r1, s2)"
    using rc rm by (simp add: try_finally_def)
  have s2: "fs s2 = (fs s)(p := None)" "calls s2 = calls s1" "errors s2 = errors s1"
    "call_made w upload_target (Some d) None s s2 res
       = call_made w upload_target (Some d) None s s1 res" for res
    by (simp_all add: s2_def errors_def call_made_def)
  show ?thesis
  proof (cases r1)
    case (Inl e)
    with assms(1) tf have e: "r = Inl e" "s' = s2"
      by (auto simp: upload_transfer_def upload_target_def bind_def Let_def)
    show ?thesis
    proof (cases "password_missing w s")
      case True
      with c e s2 Inl show ?thesis by simp
    next
      case False
      with c Inl have "(calls s1 = calls s \<and> e \<noteq> SystemExit 1 \<and> errors s1 = errors s)
        \<or> (\<exists>res new. call_made w upload_target (Some d) None s s1 res \<and> verdict res r1 new
              \<and> errors s1 = errors s @ new)"
        by auto
      then show ?thesis
      proof
        assume "calls s1 = calls s \<and> e \<noteq> SystemExit 1 \<and> errors s1 = errors s"
        with False e s2 show ?thesis by simp
      next
        assume "\<exists>res new. call_made w upload_target (Some d) None s s1 res \<and> verdict res r1 new
              \<and> errors s1 = errors s @ new"
        then obtain res new where h: "call_made w upload_target (Some d) None s s1 res"
          "verdict res r1 new" "errors s1 = errors s @ new"
          by blast
        have "upload_verdict r1 new r new"
          using Inl e by (simp add: upload_verdict_def)
        with h False e s2 show ?thesis
          by (intro conjI; simp) blast
      qed
    qed
  next
    case (Inr x)
    obtain ls st el where x: "x = (ls, st, el)" by (cases x) auto
    from c Inr have np: "\<not> password_missing w s"
      by (auto split: if_splits)
    with c Inr obtain res new where h: "call_made w upload_target (Some d) None s s1 res"
      "verdict res r1 new" "errors s1 = errors s @ new"
      by auto
    from h(2) Inr have n: "new = []"
      by (auto simp: verdict_def split: proc_result.splits if_splits option.splits)
    show ?thesis
    proof (cases "st = 204")
      case True
      with assms(1) tf Inr x have "logging INFO [Lit ''upload OK ('', TimeV el, Lit '')''] s2 = (r, s')"
        by (auto simp: upload_transfer_def upload_target_def bind_def Let_def)
      from logging_frame [OF this] have e: "r = Inr ()" "fs s' = fs s2" "calls s' = calls s2"
        "errors s' = errors s2"
        by simp_all
      have "upload_verdict r1 new r []"
        using Inr x True e by (simp add: upload_verdict_def)
      moreover have "call_made w upload_target (Some d) None s s' res"
        using h(1) e s2 by (simp add: call_made_def)
      ultimately show ?thesis
        using np e s2 h n by (intro conjI; simp) blast
    next
      case False
      with assms(1) tf Inr x have "die (upload_failed_message st ls el) s2 = (r, s')"
        by (auto simp: upload_transfer_def upload_target_def bind_def Let_def)
      from die_frame [OF this] have e: "r = Inl (SystemExit 1)" "fs s' = fs s2"
        "calls s' = calls s2" "errors s' = errors s2 @ [upload_failed_message st ls el]"
        by simp_all
      have "upload_verdict r1 new r [upload_failed_message st ls el]"
        using Inr x False e by (simp add: upload_verdict_def)
      moreover have "call_made w upload_target (Some d) None s s' res"
        using h(1) e s2 by (simp add: call_made_def)
      ultimately show ?thesis
        using np e s2 h n by (intro conjI; simp) blast
    qed
  qed
qed

lemma do_upload_reached:
  assumes "upload_prepare s = (Inr (p, d), s1)"
  shows "do_upload w s = upload_transfer w p d s1"
  using assms by (simp add: do_upload_def bind_def)

lemma upload_prepare_file:
  assumes "upload_prepare s = (Inr (p, d), s1)"
  shows "\<exists>c. fs s1 p = Some (File c)"
  using assms by (rule upload_prepare_Inr) simp

lemma upload_removes_index:
  assumes "upload_prepare s = (Inr (p, d), s1)"
  shows "(\<exists>c. fs s1 p = Some (File c))
     \<and> ((calls (snd (do_upload w s)) = calls s \<and> (\<exists>e. fst (do_upload w s) = Inl e))
        \<or> (\<exists>auth. calls (snd (do_upload w s))
                     = calls s @ [(curl_command auth upload_target (Some d) None, fs s1)]))
     \<and> fs (snd (do_upload w s)) = (fs s1)(p := None)"
proof -
  from upload_prepare_file [OF assms] obtain c where c: "fs s1 p = Some (File c)"
    by blast
  from assms have cs: "calls s1 = calls s"
    by (rule upload_prepare_Inr) simp
  obtain r s' where u: "upload_transfer w p d s1 = (r, s')"
    by fastforce
  note t = upload_transfer_cases [OF u c]
  have "(calls s' = calls s1 \<and> (\<exists>e. r = Inl e))
      \<or> (\<exists>auth. calls s' = calls s1 @ [(curl_command auth upload_target (Some d) None, fs s1)])"
    using t by (auto simp: call_made_def split: if_splits)
  with t c u cs show ?thesis
    by (simp add: do_upload_reached [OF assms])
qed

lemma snapshot_of_call:
  assumes "(calls t = calls s \<and> (\<exists>e. r = Inl e)) \<or> (\<exists>auth. calls t = calls s @ [(cmd auth, f)])"
    and "length (calls t) = Suc (length (calls s))"
  shows "snd (last (calls t)) = f"
  using assms by auto

lemma ex_prepare_eq:
  "upload_prepare ex_state = (Inr (''r/r.txt'', ex_data), snd (upload_prepare ex_state))"
  using ex_prepare by (metis prod.collapse)





lemma ex_prepared_index:
  "fs (snd (upload_prepare ex_state)) ''r/r.txt'' = Some (File ''r-1.0-a.b\<newline>'')"
  "fs (snd (upload_prepare ex_state_idx)) ''r/r.txt'' = Some (File ''r-1.0-r.txt\<newline>'')"
  by code_simp+

lemma ex_upload_runs:
  "fst (ex_upload (ex_reply ''204'')) = Inr ()"
  "fst (ex_upload (ex_reply ''500'')) = Inl (SystemExit 1)"
  "fst (ex_upload (ex_reply ''403'')) = Inl (SystemExit 1)"
  "fst (ex_upload (Completed 7 (Utf8 ''x'') 5)) = Inl (SystemExit 1)"
  "fst (ex_upload NoSuchProgram) = Inl FileNotFoundError"
  "fst (ex_upload TimedOut) = Inl TimeoutExpired"
  "length (calls (snd (ex_upload (ex_reply ''204'')))) = 1"
  "length (calls (snd (ex_upload (ex_reply ''500'')))) = 1"
  "length (calls (snd (ex_upload (ex_reply ''403'')))) = 1"
  "length (calls (snd (ex_upload (Completed 7 (Utf8 ''x'') 5)))) = 1"
  "length (calls (snd (ex_upload NoSuchProgram))) = 1"
  "length (calls (snd (ex_upload TimedOut))) = 1"
  by code_simp+

section \<open>The checks of the upload\<close>

lemma dropWhile_keeps: "x \<in> set xs \<Longrightarrow> \<not> P x \<Longrightarrow> x \<in> set (dropWhile P xs)"
  by (induction xs) auto

lemma strip_chars_keeps: "\<not> P x \<Longrightarrow> (x \<in> set (strip_chars P s)) = (x \<in> set s)"
proof
  assume "x \<in> set (strip_chars P s)"
  then show "x \<in> set s"
    by (auto simp: strip_chars_def dest!: set_dropWhileD)
next
  assume "\<not> P x" "x \<in> set s"
  then show "x \<in> set (strip_chars P s)"
    by (simp add: strip_chars_def dropWhile_keeps)
qed

lemma dot_in_upload_directory:
  "(CHR ''.'' \<in> set (upload_directory s)) = (CHR ''.'' \<in> set (arg_directory (sargs s)))"
  by (simp add: upload_directory_def strip_chars_keeps)

lemma errors_append_log:
  "errors (s\<lparr>logs := logs s @ l\<rparr>) = errors s @ map snd (filter (\<lambda>e. fst e = ERROR) l)"
  by (simp add: errors_def)

lemma upload_prepare_cases:
  assumes "upload_prepare s = (r, s')"
  shows "calls s' = calls s
     \<and> (if fs s (upload_directory s) = None
         then r = Inl (SystemExit 1) \<and> errors s' = errors s @ [nofile_message (upload_directory s)]
         else if (\<exists>c. fs s (upload_directory s) = Some (File c))
         then r = Inl (SystemExit 1) \<and> errors s' = errors s @ [notdir_message]
         else if CHR ''.'' \<in> set (upload_directory s)
         then r = Inl (SystemExit 1) \<and> errors s' = errors s @ [dot_message]
         else r \<noteq> Inl (SystemExit 1) \<and> errors s' = errors s \<and> \<not> password_missing w s'
              = (\<not> password_missing w s))"
  using assms unfolding upload_prepare_eq
  by (auto simp: errors_def upload_log1_def upload_log2_def entry_log_no_error
      password_missing_def
      split: if_splits option.splits node.splits)

lemma upload_verdict_not_dot:
  assumes "verdict res r1 new1" "upload_verdict r1 new1 r new"
  shows "\<not> (r = Inl (SystemExit 1) \<and> new = [dot_message])"
  using assms
  by (auto simp: verdict_def upload_verdict_def dot_message_def exit_message_def
      auth_message_def upload_failed_message_def
      split: proc_result.splits if_splits option.splits sum.splits)

lemma upload_transfer_not_dot:
  assumes "upload_transfer w p d s = (r, s')" "fs s p = Some (File c)"
  shows "calls s' = calls s \<or> \<not> password_missing w s"
    and "\<not> (r = Inl (SystemExit 1) \<and> errors s' = errors s @ [dot_message])"
proof -
  note c = upload_transfer_cases [OF assms]
  from c show "calls s' = calls s \<or> \<not> password_missing w s"
    by (auto split: if_splits)
  show "\<not> (r = Inl (SystemExit 1) \<and> errors s' = errors s @ [dot_message])"
  proof (cases "password_missing w s")
    case True
    with c show ?thesis by (simp add: passwd_message_def dot_message_def)
  next
    case False
    with c upload_verdict_not_dot show ?thesis by fastforce
  qed
qed

lemma do_upload_dot:
  "(fst (do_upload w s) = Inl (SystemExit 1)
      \<and> errors (snd (do_upload w s)) = errors s @ [dot_message])
    = ((\<exists>es. fs s (upload_directory s) = Some (Dir es)) \<and> CHR ''.'' \<in> set (upload_directory s))"
proof -
  obtain r1 s1 where p: "upload_prepare s = (r1, s1)" by fastforce
  note c = upload_prepare_cases [OF p, of w]
  have nd: "(\<exists>es. fs s (upload_directory s) = Some (Dir es))
      = (fs s (upload_directory s) \<noteq> None \<and> \<not> (\<exists>c. fs s (upload_directory s) = Some (File c)))"
    by (metis node.exhaust option.exhaust node.distinct(1) option.inject option.distinct(1))
  show ?thesis
  proof (cases r1)
    case (Inl e)
    with p have "do_upload w s = (Inl e, s1)"
      by (simp add: do_upload_def bind_def)
    with c Inl show ?thesis
      by (auto simp: nd nofile_message_def notdir_message_def dot_message_def split: if_splits)
  next
    case (Inr x)
    obtain pth d where x: "x = (pth, d)" by (cases x) auto
    from p Inr x have pr: "upload_prepare s = (Inr (pth, d), s1)" by simp
    from upload_prepare_file [OF pr] obtain cnt where f: "fs s1 pth = Some (File cnt)"
      by blast
    obtain r s' where u: "upload_transfer w pth d s1 = (r, s')" by fastforce
    from c Inr have e: "errors s1 = errors s" "\<not> CHR ''.'' \<in> set (upload_directory s)"
      by (auto split: if_splits)
    from upload_transfer_not_dot(2) [OF u f] e u show ?thesis
      by (simp add: do_upload_reached [OF pr])
  qed
qed

lemma do_upload_dotted:
  assumes "CHR ''.'' \<in> set (arg_directory (sargs s))"
  shows "fst (do_upload w s) = Inl (SystemExit 1) \<and> calls (snd (do_upload w s)) = calls s
     \<and> (errors (snd (do_upload w s)) = errors s @ [nofile_message (upload_directory s)]
        \<or> errors (snd (do_upload w s)) = errors s @ [notdir_message]
        \<or> errors (snd (do_upload w s)) = errors s @ [dot_message])"
proof -
  obtain r1 s1 where p: "upload_prepare s = (r1, s1)" by fastforce
  note c = upload_prepare_cases [OF p, of w]
  from assms have d: "CHR ''.'' \<in> set (upload_directory s)"
    by (simp add: dot_in_upload_directory)
  with c have r1: "r1 = Inl (SystemExit 1)" by (auto split: if_splits)
  with p have "do_upload w s = (Inl (SystemExit 1), s1)"
    by (simp add: do_upload_def bind_def)
  with c d show ?thesis by (auto split: if_splits)
qed

section \<open>The two parts of the download\<close>

lemma download_destination_eq:
  "download_destination s =
     (case fs s (dest_dir s) of
        None \<Rightarrow>
          if parent_present s
          then (Inr (arg_directory (sargs s), download_version s, dest_dir s),
                s\<lparr>logs := logs s @ [(INFO, [Lit ''downloading to directory='',
                                        StrV (arg_directory (sargs s)), Lit ''-'',
                                        StrV (download_version s), Lit '' ...''])],
                  fs := (fs s)(dest_dir s \<mapsto> Dir [])\<rparr>)
          else (Inl (if fs s (dest_parent s) = None then FileNotFoundError
                     else NotADirectoryError),
                s\<lparr>logs := logs s @ [(INFO, [Lit ''downloading to directory='',
                                        StrV (arg_directory (sargs s)), Lit ''-'',
                                        StrV (download_version s), Lit '' ...''])]\<rparr>)
      | Some (File c) \<Rightarrow>
          (Inl NotADirectoryError,
           s\<lparr>logs := logs s @ [(INFO, [Lit ''downloading to directory='',
                                        StrV (arg_directory (sargs s)), Lit ''-'',
                                        StrV (download_version s), Lit '' ...''])]\<rparr>)
      | Some (Dir es) \<Rightarrow>
          if es \<noteq> []
          then (Inl (SystemExit 1),
                s\<lparr>logs := logs s @ [(INFO, [Lit ''downloading to directory='',
                                        StrV (arg_directory (sargs s)), Lit ''-'',
                                        StrV (download_version s), Lit '' ...'']),
                                     (ERROR, not_empty_message (dest_dir s))]\<rparr>)
          else (Inr (arg_directory (sargs s), download_version s, dest_dir s),
                s\<lparr>logs := logs s @ [(INFO, [Lit ''downloading to directory='',
                                        StrV (arg_directory (sargs s)), Lit ''-'',
                                        StrV (download_version s), Lit '' ...''])]\<rparr>))"
  by (simp add: download_destination_def bind_def get_args_def Let_def logging_apply
      path_exists_def listdir_def scandir_def mkdir_def die_apply ret_def
      dest_dir_def download_version_def parent_present_def dest_parent_def
      split: option.splits node.splits)

lemma verdict_Inr_new: "verdict res (Inr x) new \<Longrightarrow> new = []"
  by (auto simp: verdict_def split: proc_result.splits if_splits option.splits)

lemma download_fetch_elim:
  assumes "download_fetch w a v dest s = (r, s')"
  obtains
    (passwd) "password_missing w s" "calls s' = calls s" "r = Inl (SystemExit 1)"
      "errors s' = errors s @ [passwd_message]" "fs s' = fs s"
  | (nocall) e where "\<not> password_missing w s" "calls s' = calls s" "r = Inl e"
      "e \<noteq> SystemExit 1" "errors s' = errors s" "fs s' = fs s"
  | (index_failed) url1 res1 e new1 where "\<not> password_missing w s"
      "call_made w url1 None None s s' res1"
      "verdict res1 (Inl e) new1" "r = Inl e" "errors s' = errors s @ new1" "fs s' = fs s"
  | (index_status) url1 res1 names st el where "\<not> password_missing w s"
      "call_made w url1 None None s s' res1"
      "verdict res1 (Inr (names, st, el)) []" "st \<noteq> 200" "r = Inl (SystemExit 1)"
      "errors s' = errors s @ [index_failed_message]" "fs s' = fs s"
  | (index_empty) url1 res1 el where "\<not> password_missing w s"
      "call_made w url1 None None s s' res1"
      "verdict res1 (Inr ([], 200, el)) []" "r = Inl (SystemExit 1)"
      "errors s' = errors s @ [empty_index_message]" "fs s' = fs s"
  | (bulk_nocall) url1 res1 names el e where "\<not> password_missing w s"
      "call_made w url1 None None s s' res1"
      "verdict res1 (Inr (names, 200, el)) []" "names \<noteq> []" "r = Inl e" "e \<noteq> SystemExit 1"
      "errors s' = errors s" "fs s' = fs s"
  | (bulk) url1 res1 names el s1 url2 res2 r2 new2 new where "\<not> password_missing w s"
      "call_made w url1 None None s s1 res1" "verdict res1 (Inr (names, 200, el)) []"
      "names \<noteq> []" "fs s1 = fs s" "call_made w url2 None (Some dest) s1 s' res2"
      "verdict res2 r2 new2" "download_verdict r2 new2 r new" "errors s' = errors s @ new"
      "fs s' = fs s"
proof -
  let ?base = "download_url CONF @ ''/repository/'' @ download_repo CONF @ ''/''
                      @ replace CHR ''.'' CHR ''/'' (get_groupId (sargs s)) @ ''/'' @ a @ ''/'' @ v"
  let ?url1 = "?base @ ''/'' @ dest @ ''.txt''"
  obtain r1 s1 where c1: "run_curl_cmd w ?url1 None None s = (r1, s1)" by fastforce
  note f1 = run_curl_cmd_cases [OF c1]
  show thesis
  proof (cases r1)
    case (Inl e)
    with assms c1 have e: "r = Inl e" "s' = s1"
      by (auto simp: download_fetch_def bind_def get_args_def Let_def)
    show thesis
    proof (cases "password_missing w s")
      case True
      with f1 e Inl show thesis by (intro passwd) simp_all
    next
      case False
      with f1 Inl have "(calls s1 = calls s \<and> e \<noteq> SystemExit 1 \<and> errors s1 = errors s)
        \<or> (\<exists>res new. call_made w ?url1 None None s s1 res \<and> verdict res r1 new
              \<and> errors s1 = errors s @ new)"
        by auto
      then show thesis
      proof
        assume "calls s1 = calls s \<and> e \<noteq> SystemExit 1 \<and> errors s1 = errors s"
        with False f1 e show thesis by (intro nocall [of e]) simp_all
      next
        assume "\<exists>res new. call_made w ?url1 None None s s1 res \<and> verdict res r1 new
              \<and> errors s1 = errors s @ new"
        then obtain res new where "call_made w ?url1 None None s s1 res" "verdict res r1 new"
          "errors s1 = errors s @ new"
          by blast
        with False f1 e Inl show thesis by (intro index_failed [of ?url1 res e new]) simp_all
      qed
    qed
  next
    case (Inr x)
    obtain names st el where x: "x = (names, st, el)" by (cases x) auto
    from f1 Inr have np: "\<not> password_missing w s"
      by (auto split: if_splits)
    with f1 Inr obtain res1 new1 where h: "call_made w ?url1 None None s s1 res1"
      "verdict res1 r1 new1" "errors s1 = errors s @ new1" "\<not> password_missing w s1"
      by auto
    from h(2) Inr have n1: "new1 = []" by (simp add: verdict_Inr_new)
    have cm: "call_made w ?url1 None None s t res1" if "calls t = calls s1" for t
      using h(1) that by (simp add: call_made_def)
    show thesis
    proof (cases "st = 200")
      case False
      with assms c1 Inr x have "die index_failed_message s1 = (r, s')"
        by (auto simp: download_fetch_def bind_def get_args_def Let_def)
      from die_frame [OF this] f1 h n1 cm [of s'] Inr x False np show thesis
        by (intro index_status [of ?url1 res1 names st el]) simp_all
    next
      case True
      show thesis
      proof (cases "names = []")
        case e: True
        with assms c1 Inr x True have "die empty_index_message s1 = (r, s')"
          by (auto simp: download_fetch_def bind_def get_args_def Let_def)
        from die_frame [OF this] f1 h n1 cm [of s'] Inr x True e np show thesis
          by (intro index_empty [of ?url1 res1 el]) simp_all
      next
        case ne: False
        let ?url2 = "concat [?base, ''/'', ''{'',
                       join '','' (map (\<lambda>file. file @ ''.md5'') names @ names), ''}'']"
        obtain r2 s2 where c2: "run_curl_cmd w ?url2 None (Some dest) s1 = (r2, s2)"
          by fastforce
        note f2 = run_curl_cmd_cases [OF c2]
        from f2 h(4) have f2': "fs s2 = fs s1"
          "(calls s2 = calls s1 \<and> (\<exists>e. r2 = Inl e \<and> e \<noteq> SystemExit 1) \<and> errors s2 = errors s1)
           \<or> (\<exists>res new. call_made w ?url2 None (Some dest) s1 s2 res \<and> verdict res r2 new
                  \<and> errors s2 = errors s1 @ new)"
          by auto
        have sargs1: "sargs s1 = sargs s \<or> True" by simp
        from assms c1 c2 Inr x True ne
        have fin: "(case r2 of Inl e \<Rightarrow> (Inl e, s2)
                    | Inr (httpResponse, httpStatus, elapsed) \<Rightarrow>
                        (if httpStatus \<noteq> 200
                         then die (download_failed_message httpStatus elapsed httpResponse)
                         else logging INFO [Lit ''donwload OK ('', TimeV elapsed, Lit '')'']) s2)
                   = (r, s')"
          by (auto simp: download_fetch_def bind_def get_args_def Let_def split: sum.splits)
        from f2'(2) show thesis
        proof
          assume a: "calls s2 = calls s1 \<and> (\<exists>e. r2 = Inl e \<and> e \<noteq> SystemExit 1)
              \<and> errors s2 = errors s1"
          then obtain e where e: "r2 = Inl e" "e \<noteq> SystemExit 1" by blast
          with fin have "r = Inl e" "s' = s2" by auto
          with a e f1 f2' h n1 cm [of s'] Inr x True np ne show thesis
            by (intro bulk_nocall [of ?url1 res1 names el e]) simp_all
        next
          assume "\<exists>res new. call_made w ?url2 None (Some dest) s1 s2 res \<and> verdict res r2 new
                  \<and> errors s2 = errors s1 @ new"
          then obtain res2 new2 where g: "call_made w ?url2 None (Some dest) s1 s2 res2"
            "verdict res2 r2 new2" "errors s2 = errors s1 @ new2"
            by blast
          have "\<exists>new. download_verdict r2 new2 r new \<and> errors s' = errors s @ new
                  \<and> calls s' = calls s2 \<and> fs s' = fs s2"
          proof (cases r2)
            case (Inl e)
            with fin have "r = Inl e" "s' = s2" by auto
            with Inl g h n1 show ?thesis
              by (intro exI [of _ new2]) (simp add: download_verdict_def)
          next
            case r2: (Inr y)
            obtain resp st2 el2 where y: "y = (resp, st2, el2)" by (cases y) auto
            from g(2) r2 have n2: "new2 = []" by (simp add: verdict_Inr_new)
            show ?thesis
            proof (cases "st2 = 200")
              case True
              with fin r2 y
              have "logging INFO [Lit ''donwload OK ('', TimeV el2, Lit '')''] s2 = (r, s')"
                by simp
              from logging_frame [OF this] r2 y True g h n1 n2 show ?thesis
                by (intro exI [of _ "[]"]) (simp add: download_verdict_def)
            next
              case False
              with fin r2 y
              have "die (download_failed_message st2 el2 resp) s2 = (r, s')"
                by simp
              from die_frame [OF this] r2 y False g h n1 n2 show ?thesis
                by (intro exI [of _ "[download_failed_message st2 el2 resp]"])
                  (simp add: download_verdict_def)
            qed
          qed
          then obtain new where k: "download_verdict r2 new2 r new" "errors s' = errors s @ new"
            "calls s' = calls s2" "fs s' = fs s2"
            by blast
          have cm2: "call_made w ?url2 None (Some dest) s1 s' res2"
            using g(1) k(3) by (simp add: call_made_def)
          have v1: "verdict res1 (Inr (names, 200, el)) []"
            using h(2) Inr x True n1 by simp
          have fs1: "fs s1 = fs s" "fs s' = fs s"
            using f1 f2' k(4) by simp_all
          show thesis
            by (rule bulk [OF np h(1) v1 ne fs1(1) cm2 g(2) k(1) k(2) fs1(2)])
        qed
      qed
    qed
  qed
qed

lemma do_download_eq:
  "do_download w s =
     (case download_destination s of
        (Inl e, s1) \<Rightarrow> (Inl e, s1)
      | (Inr (a, v, d), s1) \<Rightarrow> download_fetch w a v d s1)"
  by (simp add: do_download_def bind_def split: prod.splits sum.splits)

lemma call_made_calls:
  "call_made w url flds od s s' res \<Longrightarrow> \<exists>c. calls s' = calls s @ [(c, fs s)] \<and> res = run_process w c (fs s)"
  by (auto simp: call_made_def)


lemma download_destination_cases:
  assumes "download_destination s = (r, s')"
  shows "calls s' = calls s \<and> sargs s' = sargs s
     \<and> (case fs s (dest_dir s) of
          None \<Rightarrow>
            if parent_present s
            then r = Inr (arg_directory (sargs s), download_version s, dest_dir s)
                 \<and> fs s' = (fs s)(dest_dir s \<mapsto> Dir []) \<and> errors s' = errors s
            else r = Inl (if fs s (dest_parent s) = None then FileNotFoundError
                          else NotADirectoryError)
                 \<and> fs s' = fs s \<and> errors s' = errors s
        | Some (File c) \<Rightarrow> r = Inl NotADirectoryError \<and> fs s' = fs s \<and> errors s' = errors s
        | Some (Dir es) \<Rightarrow>
            if es \<noteq> []
            then r = Inl (SystemExit 1) \<and> fs s' = fs s
                 \<and> errors s' = errors s @ [not_empty_message (dest_dir s)]
            else r = Inr (arg_directory (sargs s), download_version s, dest_dir s)
                 \<and> fs s' = fs s \<and> errors s' = errors s)"
  using assms unfolding download_destination_eq
  by (auto simp: errors_def split: option.splits node.splits if_splits)




section \<open>Whole runs\<close>

lemma main_cases:
  assumes "main w s = (r, s')"
  obtains
    (up) s1 where "do_upload w s1 = (r, s')" "calls s1 = calls s" "errors s1 = errors s"
      "fs s1 = fs s" "sargs s1 = sargs s" "arg_action (sargs s) \<in> set [''up'', ''upload'']"
  | (down) s1 where "do_download w s1 = (r, s')" "calls s1 = calls s" "errors s1 = errors s"
      "fs s1 = fs s" "sargs s1 = sargs s" "arg_action (sargs s) \<notin> set [''up'', ''upload'']"
proof (cases "arg_action (sargs s) \<in> set [''up'', ''upload'']")
  case True
  with assms show thesis
    by (intro up [of "s\<lparr>debug_on := (arg_verbose (sargs s) \<or> verbose CONF)\<rparr>"])
      (simp_all add: main_def Let_def errors_def)
next
  case False
  with assms show thesis
    by (intro down [of "s\<lparr>debug_on := (arg_verbose (sargs s) \<or> verbose CONF)\<rparr>"])
      (simp_all add: main_def Let_def errors_def)
qed

lemma do_upload_elim:
  assumes "do_upload w s = (r, s')"
  obtains
    (rejected) e where "calls s' = calls s" "r = Inl e" "upload_prepare s = (Inl e, s')"
  | (passwd) p d s1 where "upload_prepare s = (Inr (p, d), s1)" "password_missing w s"
      "calls s' = calls s" "r = Inl (SystemExit 1)" "errors s' = errors s @ [passwd_message]"
  | (nocall) p d s1 e where "upload_prepare s = (Inr (p, d), s1)" "\<not> password_missing w s"
      "calls s' = calls s" "r = Inl e" "e \<noteq> SystemExit 1" "errors s' = errors s"
  | (called) p d s1 res r1 new1 new where "upload_prepare s = (Inr (p, d), s1)"
      "\<not> password_missing w s" "calls s1 = calls s" "call_made w upload_target (Some d) None s1 s' res"
      "verdict res r1 new1" "upload_verdict r1 new1 r new" "errors s' = errors s @ new"
proof -
  obtain r0 s1 where p: "upload_prepare s = (r0, s1)" by fastforce
  note c = upload_prepare_cases [OF p, of w]
  show thesis
  proof (cases r0)
    case (Inl e)
    with p assms have "r = Inl e" "s' = s1"
      by (auto simp: do_upload_def bind_def)
    with c p Inl show thesis by (intro rejected [of e]) simp_all
  next
    case (Inr x)
    obtain pth d where x: "x = (pth, d)" by (cases x) auto
    from p Inr x have pr: "upload_prepare s = (Inr (pth, d), s1)" by simp
    from upload_prepare_file [OF pr] obtain cnt where f: "fs s1 pth = Some (File cnt)"
      by blast
    from assms have u: "upload_transfer w pth d s1 = (r, s')"
      by (simp add: do_upload_reached [OF pr])
    note t = upload_transfer_cases [OF u f]
    from c Inr have e: "errors s1 = errors s" "calls s1 = calls s"
      "password_missing w s1 = password_missing w s"
      by (auto split: if_splits)
    show thesis
    proof (cases "password_missing w s")
      case True
      with t e show thesis by (intro passwd [OF pr]) simp_all
    next
      case False
      with t e have "(calls s' = calls s1 \<and> (\<exists>e. r = Inl e \<and> e \<noteq> SystemExit 1)
            \<and> errors s' = errors s1)
        \<or> (\<exists>res r1 new1 new. call_made w upload_target (Some d) None s1 s' res
                  \<and> verdict res r1 new1 \<and> upload_verdict r1 new1 r new
                  \<and> errors s' = errors s1 @ new)"
        by simp
      then show thesis
      proof
        assume "calls s' = calls s1 \<and> (\<exists>e. r = Inl e \<and> e \<noteq> SystemExit 1)
            \<and> errors s' = errors s1"
        then obtain ex where "calls s' = calls s1" "r = Inl ex" "ex \<noteq> SystemExit 1"
          "errors s' = errors s1"
          by blast
        with False e show thesis by (intro nocall [OF pr, of ex]) simp_all
      next
        assume "\<exists>res r1 new1 new. call_made w upload_target (Some d) None s1 s' res
                  \<and> verdict res r1 new1 \<and> upload_verdict r1 new1 r new
                  \<and> errors s' = errors s1 @ new"
        then obtain res r1 new1 new where h: "call_made w upload_target (Some d) None s1 s' res"
          "verdict res r1 new1" "upload_verdict r1 new1 r new" "errors s' = errors s1 @ new"
          by blast
        from h(4) e have "errors s' = errors s @ new" by simp
        from called [OF pr False e(2) h(1) h(2) h(3) this] show thesis .
      qed
    qed
  qed
qed

lemma password_missing_fs [simp]:
  "password_missing w (s\<lparr>fs := f\<rparr>) = password_missing w s"
  "password_missing w (s\<lparr>logs := l\<rparr>) = password_missing w s"
  by (simp_all add: password_missing_def)

lemma download_destination_passwd:
  "download_destination s = (r, s') \<Longrightarrow> password_missing w s' = password_missing w s"
  using download_destination_cases [of s r s'] by (simp add: password_missing_def)

lemma run_without_password:
  assumes "password_missing w s"
  shows "calls (snd (do_upload w s)) = calls s \<and> (\<exists>e. fst (do_upload w s) = Inl e)"
    and "calls (snd (do_download w s)) = calls s \<and> (\<exists>e. fst (do_download w s) = Inl e)"
    and "upload_prepare s = (Inr x, s1) \<Longrightarrow> fst (do_upload w s) = Inl (SystemExit 1)
           \<and> errors (snd (do_upload w s)) = errors s @ [passwd_message]"
    and "download_destination s = (Inr y, s2) \<Longrightarrow> fst (do_download w s) = Inl (SystemExit 1)
           \<and> errors (snd (do_download w s)) = errors s @ [passwd_message]"
proof -
  obtain r s' where u: "do_upload w s = (r, s')" by fastforce
  from u u assms show "calls (snd (do_upload w s)) = calls s \<and> (\<exists>e. fst (do_upload w s) = Inl e)"
    by (cases rule: do_upload_elim) auto
  show "fst (do_upload w s) = Inl (SystemExit 1)
           \<and> errors (snd (do_upload w s)) = errors s @ [passwd_message]"
    if "upload_prepare s = (Inr x, s1)"
    using u u assms that by (cases rule: do_upload_elim) auto
  obtain r0 t where d: "download_destination s = (r0, t)" by fastforce
  note pm = download_destination_passwd [OF d, of w]
  note dc = download_destination_cases [OF d]
  have dl: "calls (snd (do_download w s)) = calls s \<and> (\<exists>e. fst (do_download w s) = Inl e)
      \<and> ((\<exists>y. r0 = Inr y) \<longrightarrow> fst (do_download w s) = Inl (SystemExit 1)
           \<and> errors (snd (do_download w s)) = errors s @ [passwd_message])"
  proof (cases r0)
    case (Inl e)
    with d dc show ?thesis by (simp add: do_download_eq)
  next
    case (Inr y)
    obtain a v dst where y: "y = (a, v, dst)" by (cases y) auto
    obtain r s' where f: "download_fetch w a v dst t = (r, s')" by fastforce
    from d Inr y f have e: "do_download w s = (r, s')" by (simp add: do_download_eq)
    have es: "errors t = errors s" "calls t = calls s"
      using dc Inr by (auto split: option.splits node.splits if_splits)
    from f pm assms es Inr show ?thesis
      unfolding e by (cases rule: download_fetch_elim) auto
  qed
  then show "calls (snd (do_download w s)) = calls s \<and> (\<exists>e. fst (do_download w s) = Inl e)"
    by simp
  show "fst (do_download w s) = Inl (SystemExit 1)
           \<and> errors (snd (do_download w s)) = errors s @ [passwd_message]"
    if "download_destination s = (Inr y, s2)"
    using dl d that by (cases y) auto
qed

lemma ex_destination:
  "download_destination (init (ex_args ''download'' ''r'') ex_fs_none)
     = (Inr (''r'', ''1.0'', ''r-1.0''),
        snd (download_destination (init (ex_args ''download'' ''r'') ex_fs_none)))"
proof -
  have "fst (download_destination (init (ex_args ''download'' ''r'') ex_fs_none))
      = Inr (''r'', ''1.0'', ''r-1.0'')"
    by code_simp
  then show ?thesis by (metis prod.collapse)
qed

lemma http_status_Completed: "http_status res = Some st \<Longrightarrow> \<exists>out el. res = Completed 0 out el"
  by (auto simp: http_status_def split: proc_result.splits if_splits)

lemma verdict_auth:
  assumes "verdict res r new" "http_status res = Some st" "st = 401 \<or> st = 403"
  shows "r = Inl (SystemExit 1) \<and> new = [auth_message st]"
  using assms http_status_Completed [OF assms(2)]
  by (auto simp: verdict_def)

lemma verdict_exit:
  assumes "verdict (Completed rc out el) r new" "rc \<noteq> 0"
  shows "r = Inl (SystemExit 1) \<and> new = [exit_message rc el out]"
  using assms by (simp add: verdict_def)

lemma verdict_Inr:
  assumes "verdict res (Inr (ls, st, el)) new"
  shows "http_status res = Some st \<and> st \<noteq> 401 \<and> st \<noteq> 403 \<and> new = []
     \<and> (\<exists>out tx. res = Completed 0 out el \<and> decode out = Inr tx \<and> ls = butlast (resp_lines tx))"
  using assms
  by (auto simp: verdict_def split: proc_result.splits if_splits option.splits)

lemma verdict_ok:
  assumes "verdict (Completed rc out el) r new" "http_status (Completed rc out el) = Some st"
    "st \<noteq> 401" "st \<noteq> 403" "decode out = Inr tx"
  shows "r = Inr (butlast (resp_lines tx), st, el) \<and> new = []"
  using assms http_status_Completed [OF assms(2)]
  by (auto simp: verdict_def)

lemma do_upload_call:
  assumes "do_upload w s = (r, s')" "calls s = []" "(cmd, f) \<in> set (calls s')"
  obtains r1 new1 new where "verdict (run_process w cmd f) r1 new1"
    "upload_verdict r1 new1 r new" "errors s' = errors s @ new" "calls s' = [(cmd, f)]"
  using assms(1)
proof (cases rule: do_upload_elim)
  case (called p d s1 res r1 new1 new)
  from call_made_calls [OF called(4)] called(3) assms(2,3)
  have "calls s' = [(cmd, f)]" "res = run_process w cmd f" by auto
  with called that show ?thesis by blast
qed (use assms(2,3) in auto)

lemma do_download_call:
  assumes "do_download w s = (r, s')" "calls s = []" "(cmd, f) \<in> set (calls s')"
  obtains
    (index) r1 new1 new where "calls s' = [(cmd, f)]" "verdict (run_process w cmd f) r1 new1"
      "index_verdict r1 new1 r new" "errors s' = errors s @ new"
  | (first_of_two) c2 names el where "calls s' = [(cmd, f), c2]"
      "verdict (run_process w cmd f) (Inr (names, 200, el)) []"
  | (second) c1 r2 new2 new where "calls s' = [c1, (cmd, f)]"
      "verdict (run_process w cmd f) r2 new2" "download_verdict r2 new2 r new"
      "errors s' = errors s @ new"
proof -
  obtain r0 t where d: "download_destination s = (r0, t)" by fastforce
  note dc = download_destination_cases [OF d]
  show thesis
  proof (cases r0)
    case (Inl e)
    with d assms(1) have "s' = t" by (simp add: do_download_eq)
    with dc assms(2,3) show thesis by simp
  next
    case (Inr y)
    obtain a v dst where y: "y = (a, v, dst)" by (cases y) auto
    from d Inr y assms(1) have f: "download_fetch w a v dst t = (r, s')"
      by (simp add: do_download_eq)
    have es: "errors t = errors s" "calls t = []"
      using dc Inr assms(2) by (auto split: option.splits node.splits if_splits)
    from f show thesis
    proof (cases rule: download_fetch_elim)
      case passwd
      with es assms(3) show ?thesis by simp
    next
      case (nocall e)
      with es assms(3) show ?thesis by simp
    next
      case (index_failed url1 res1 e new1)
      from call_made_calls [OF index_failed(2)] es assms(3)
      have c: "calls s' = [(cmd, f)]" "res1 = run_process w cmd f" by auto
      have "index_verdict (Inl e) new1 r new1"
        using index_failed by (simp add: index_verdict_def)
      with c index_failed es show ?thesis
        by (intro index [of "Inl e" new1 new1]) simp_all
    next
      case (index_status url1 res1 names st el)
      from call_made_calls [OF index_status(2)] es assms(3)
      have c: "calls s' = [(cmd, f)]" "res1 = run_process w cmd f" by auto
      have "index_verdict (Inr (names, st, el)) [] r [index_failed_message]"
        using index_status by (simp add: index_verdict_def)
      with c index_status es show ?thesis
        by (intro index [of "Inr (names, st, el)" "[]" "[index_failed_message]"]) simp_all
    next
      case (index_empty url1 res1 el)
      from call_made_calls [OF index_empty(2)] es assms(3)
      have c: "calls s' = [(cmd, f)]" "res1 = run_process w cmd f" by auto
      have "index_verdict (Inr ([], 200, el)) [] r [empty_index_message]"
        using index_empty by (simp add: index_verdict_def)
      with c index_empty es show ?thesis
        by (intro index [of "Inr ([], 200, el)" "[]" "[empty_index_message]"]) simp_all
    next
      case (bulk_nocall url1 res1 names el e)
      from call_made_calls [OF bulk_nocall(2)] es assms(3)
      have c: "calls s' = [(cmd, f)]" "res1 = run_process w cmd f" by auto
      have "index_verdict (Inr (names, 200, el)) [] r []"
        using bulk_nocall by (simp add: index_verdict_def)
      with c bulk_nocall es show ?thesis
        by (intro index [of "Inr (names, 200, el)" "[]" "[]"]) simp_all
    next
      case (bulk url1 res1 names el s1 url2 res2 r2 new2 new)
      from call_made_calls [OF bulk(2)] es
      obtain c1 where c1: "calls s1 = [(c1, fs t)]" "res1 = run_process w c1 (fs t)" by auto
      from call_made_calls [OF bulk(6)] c1 bulk(5)
      obtain c2 where c2: "calls s' = [(c1, fs t), (c2, fs t)]" "res2 = run_process w c2 (fs t)"
        by auto
      show ?thesis
      proof (cases "(cmd, f) = (c1, fs t)")
        case True
        with c1 c2 bulk(3) show ?thesis
          by (intro first_of_two [of "(c2, fs t)" names el]) simp_all
      next
        case False
        with c2 assms(3) have "(cmd, f) = (c2, fs t)" by auto
        with c2 bulk es show ?thesis
          by (intro second [of "(c1, fs t)" r2 new2 new]) simp_all
      qed
    qed
  qed
qed

lemma main_auth:
  assumes "main w s = (r, s')" "calls s = []" "(cmd, f) \<in> set (calls s')"
    "http_status (run_process w cmd f) = Some st" "st = 401 \<or> st = 403"
  shows "r = Inl (SystemExit 1) \<and> errors s' = errors s @ [auth_message st]"
  using assms(1)
proof (cases rule: main_cases)
  case (up s1)
  from up(1) obtain r1 new1 new where h: "verdict (run_process w cmd f) r1 new1"
    "upload_verdict r1 new1 r new" "errors s' = errors s1 @ new"
    using assms(2,3) up(2) by (elim do_upload_call [of w s1 r s' cmd f]) simp_all
  from verdict_auth [OF h(1) assms(4,5)] h(2,3) up(3) show ?thesis
    by (simp add: upload_verdict_def)
next
  case (down s1)
  have c: "calls s1 = []" using down(2) assms(2) by simp
  from down(1) c assms(3) show ?thesis
  proof (cases rule: do_download_call)
    case (index r1 new1 new)
    from verdict_auth [OF index(2) assms(4,5)] index(3,4) down(3) show ?thesis
      by (simp add: index_verdict_def)
  next
    case (first_of_two c2 names el)
    from verdict_Inr [OF first_of_two(2)] assms(4,5) show ?thesis by simp
  next
    case (second c1 r2 new2 new)
    from verdict_auth [OF second(2) assms(4,5)] second(3,4) down(3) show ?thesis
      by (simp add: download_verdict_def)
  qed
qed

section \<open>Runs of the examples\<close>

lemma last_in_calls: "length xs = Suc n \<Longrightarrow> (fst (last xs), snd (last xs)) \<in> set xs"
  by (cases xs rule: rev_cases) auto

lemma ex_world_run:
  "run_process (ex_world res) cmd f = res"
  "run_process (ex_world2 r1 r2) cmd f = (if ''--remote-name-all'' \<in> set cmd then r2 else r1)"
  by (simp_all add: ex_world_def ex_world2_def)

lemma ex_empty:
  "calls ex_state = []" "errors ex_state = []"
  "calls ex_download = []" "errors ex_download = []"
  by (simp_all add: ex_state_def ex_download_def init_def errors_def)

lemma ex_status:
  "http_status (ex_reply ''401'') = Some 401" "http_status (ex_reply ''403'') = Some 403"
  "http_status (ex_reply ''500'') = Some 500"
  by code_simp+

lemma ex_lengths:
  "length (calls (snd (main (ex_world (ex_reply ''403'')) ex_state))) = Suc 0"
  "length (calls (snd (main (ex_world (ex_reply ''401'')) ex_download))) = Suc 0"
  "length (calls (snd (main (ex_world2 ex_index (ex_reply ''403'')) ex_download))) = Suc 1"
  "''--remote-name-all''
     \<in> set (fst (last (calls (snd (main (ex_world2 ex_index (ex_reply ''403'')) ex_download)))))"
  by code_simp+

section \<open>The claims\<close>

subsection \<open>C5: what the scan does with one entry\<close>

text \<open>
  C5, as the code has it.  For one entry of the scanned directory, the body of the loop
  (lines 87 to 99) does exactly one of four things.  An entry that is not a directory and
  is hidden (its name starts with a dot) or is neither a regular file nor a directory is
  skipped silently: the scan state and the log are unchanged.  Every sub-directory, hidden
  or not, is skipped and one INFO record \<open>skipping sub-directory: name\<close> is logged.  A
  regular file that is not hidden and has no dot in its name is skipped with one WARNING
  record and no failure.  Every other regular file (not hidden, a dot in its name) yields
  exactly one asset and one index line: the name is \<open>c.e\<close> with no dot in \<open>e\<close>, the fields
  \<open>maven2.asset<k>\<close>, \<open>maven2.asset<k>.classifier = c\<close> and \<open>maven2.asset<k>.extension = e\<close> are
  set, the line \<open>artifactId-version-c.e\<close> is appended, the asset number goes up by one and
  nothing is logged.
\<close>

theorem scan_entry_classifies:
  "(entry_kind ent \<noteq> Directory
      \<and> (startswith (entry_name ent) ''.'' \<or> entry_kind ent = Special)
     \<longrightarrow> scan_entry dp ent sc s = (Inr sc, s))
   \<and> (entry_kind ent = Directory
     \<longrightarrow> scan_entry dp ent sc s =
         (Inr sc, s\<lparr>logs := logs s @
            [(INFO, [Lit ''skipping sub-directory: '', StrV (entry_name ent)])]\<rparr>))
   \<and> (entry_kind ent = RegularFile \<and> \<not> startswith (entry_name ent) ''.''
        \<and> CHR ''.'' \<notin> set (entry_name ent)
     \<longrightarrow> scan_entry dp ent sc s =
         (Inr sc, s\<lparr>logs := logs s @
            [(WARNING, [Lit ''skipping a file without extension: '',
                        StrV (entry_name ent)])]\<rparr>))
   \<and> (entry_kind ent = RegularFile \<and> \<not> startswith (entry_name ent) ''.''
        \<and> CHR ''.'' \<in> set (entry_name ent)
        \<and> map_of (data sc) ''maven2.artifactId'' = Some a
        \<and> map_of (data sc) ''maven2.version'' = Some v
     \<longrightarrow> (\<exists>c e. entry_name ent = c @ ''.'' @ e \<and> CHR ''.'' \<notin> set e
            \<and> scan_entry dp ent sc s =
                (Inr \<lparr>data =
                        AList.update (asset_key (assetIdx sc) @ ''.extension'') e
                          (AList.update (asset_key (assetIdx sc) @ ''.classifier'') c
                             (AList.update (asset_key (assetIdx sc))
                                (CHR ''@'' # path_join dp (entry_name ent)) (data sc))),
                      idxEntries = idxEntries sc @ [a @ ''-'' @ v @ ''-'' @ c @ ''.'' @ e @ [LF]],
                      assetIdx = assetIdx sc + 1\<rparr>, s)))"
proof (intro conjI impI)
  assume "entry_kind ent \<noteq> Directory
      \<and> (startswith (entry_name ent) ''.'' \<or> entry_kind ent = Special)"
  then have "\<not> eligible ent" "entry_log ent = []"
    by (auto simp: eligible_def entry_log_def)
  then show "scan_entry dp ent sc s = (Inr sc, s)"
    by (simp add: scan_entry_skip)
next
  assume "entry_kind ent = Directory"
  then have "\<not> eligible ent"
    "entry_log ent = [(INFO, [Lit ''skipping sub-directory: '', StrV (entry_name ent)])]"
    by (auto simp: eligible_def entry_log_def)
  then show "scan_entry dp ent sc s =
         (Inr sc, s\<lparr>logs := logs s @
            [(INFO, [Lit ''skipping sub-directory: '', StrV (entry_name ent)])]\<rparr>)"
    by (simp add: scan_entry_skip)
next
  assume "entry_kind ent = RegularFile \<and> \<not> startswith (entry_name ent) ''.''
        \<and> CHR ''.'' \<notin> set (entry_name ent)"
  then have "\<not> eligible ent"
    "entry_log ent = [(WARNING, [Lit ''skipping a file without extension: '',
                        StrV (entry_name ent)])]"
    by (auto simp: eligible_def entry_log_def)
  then show "scan_entry dp ent sc s =
         (Inr sc, s\<lparr>logs := logs s @
            [(WARNING, [Lit ''skipping a file without extension: '',
                        StrV (entry_name ent)])]\<rparr>)"
    by (simp add: scan_entry_skip)
next
  assume h: "entry_kind ent = RegularFile \<and> \<not> startswith (entry_name ent) ''.''
        \<and> CHR ''.'' \<in> set (entry_name ent)
        \<and> map_of (data sc) ''maven2.artifactId'' = Some a
        \<and> map_of (data sc) ''maven2.version'' = Some v"
  let ?c = "classifier (entry_name ent)"
  let ?e = "extension (entry_name ent)"
  from h have el: "eligible ent" by (simp add: eligible_def)
  from h have "entry_name ent = ?c @ ''.'' @ ?e" "CHR ''.'' \<notin> set ?e"
    using name_decomposition [of "CHR ''.''" "entry_name ent"]
    by (simp_all add: classifier_def extension_def)
  moreover from h el have "scan_entry dp ent sc s =
                (Inr \<lparr>data =
                        AList.update (asset_key (assetIdx sc) @ ''.extension'') ?e
                          (AList.update (asset_key (assetIdx sc) @ ''.classifier'') ?c
                             (AList.update (asset_key (assetIdx sc))
                                (CHR ''@'' # path_join dp (entry_name ent)) (data sc))),
                      idxEntries = idxEntries sc @ [a @ ''-'' @ v @ ''-'' @ ?c @ ''.'' @ ?e @ [LF]],
                      assetIdx = assetIdx sc + 1\<rparr>, s)"
    by (simp add: scan_entry_asset set_asset_def index_line_def)
  ultimately show "\<exists>c e. entry_name ent = c @ ''.'' @ e \<and> CHR ''.'' \<notin> set e
            \<and> scan_entry dp ent sc s =
                (Inr \<lparr>data =
                        AList.update (asset_key (assetIdx sc) @ ''.extension'') e
                          (AList.update (asset_key (assetIdx sc) @ ''.classifier'') c
                             (AList.update (asset_key (assetIdx sc))
                                (CHR ''@'' # path_join dp (entry_name ent)) (data sc))),
                      idxEntries = idxEntries sc @ [a @ ''-'' @ v @ ''-'' @ c @ ''.'' @ e @ [LF]],
                      assetIdx = assetIdx sc + 1\<rparr>, s)"
    by blast
qed

text \<open>The four cases on the entries \<open>.h\<close>, \<open>sub\<close>, \<open>README\<close> and \<open>a.b\<close>.\<close>

theorem scan_entry_classifies_witness:
  "scan_entry ''r'' (DirEntry ''.h'' RegularFile) ex_scan ex_state = (Inr ex_scan, ex_state)
   \<and> scan_entry ''r'' (DirEntry ''sub'' Directory) ex_scan ex_state =
       (Inr ex_scan, ex_state\<lparr>logs := logs ex_state @
          [(INFO, [Lit ''skipping sub-directory: '', StrV ''sub''])]\<rparr>)
   \<and> scan_entry ''r'' (DirEntry ''README'' RegularFile) ex_scan ex_state =
       (Inr ex_scan, ex_state\<lparr>logs := logs ex_state @
          [(WARNING, [Lit ''skipping a file without extension: '', StrV ''README''])]\<rparr>)
   \<and> (\<exists>c e. ''a.b'' = c @ ''.'' @ e \<and> CHR ''.'' \<notin> set e
        \<and> scan_entry ''r'' (DirEntry ''a.b'' RegularFile) ex_scan ex_state =
            (Inr \<lparr>data =
                    AList.update (asset_key (assetIdx ex_scan) @ ''.extension'') e
                      (AList.update (asset_key (assetIdx ex_scan) @ ''.classifier'') c
                         (AList.update (asset_key (assetIdx ex_scan))
                            (CHR ''@'' # path_join ''r'' ''a.b'') (data ex_scan))),
                  idxEntries = idxEntries ex_scan @ [''r'' @ ''-'' @ ''1.0'' @ ''-'' @ c @ ''.'' @ e @ [LF]],
                  assetIdx = assetIdx ex_scan + 1\<rparr>, ex_state))"
proof -
  have h1: "startswith ''.h'' ''.''" "\<not> startswith ''a.b'' ''.''" "\<not> startswith ''README'' ''.''"
    by (simp_all add: startswith_def)
  have h2: "map_of (data ex_scan) ''maven2.artifactId'' = Some ''r''"
    "map_of (data ex_scan) ''maven2.version'' = Some ''1.0''"
    by (simp_all add: ex_scan_def)
  show ?thesis
    using
      scan_entry_classifies [where ent = "DirEntry ''.h'' RegularFile" and dp = "''r''"
        and sc = ex_scan and s = ex_state]
      scan_entry_classifies [where ent = "DirEntry ''sub'' Directory" and dp = "''r''"
        and sc = ex_scan and s = ex_state]
      scan_entry_classifies [where ent = "DirEntry ''README'' RegularFile" and dp = "''r''"
        and sc = ex_scan and s = ex_state]
      scan_entry_classifies [where ent = "DirEntry ''a.b'' RegularFile" and dp = "''r''"
        and sc = ex_scan and s = ex_state and a = "''r''" and v = "''1.0''"]
      h1 h2
    by simp
qed

text \<open>
  C5 as stated says that every entry whose name starts with a dot is skipped without a log
  record.  The hidden directory \<open>.git\<close> is not: the first test of line 87 fails on the
  leading dot, the \<open>elif\<close> of line 98 sees a directory, and line 99 logs it.
\<close>

theorem hidden_directory_is_logged:
  "startswith ''.git'' ''.''
   \<and> scan_entry ''r'' (DirEntry ''.git'' Directory) ex_scan ex_state
       \<noteq> (Inr ex_scan, ex_state)
   \<and> logs (snd (scan_entry ''r'' (DirEntry ''.git'' Directory) ex_scan ex_state))
       = [(INFO, [Lit ''skipping sub-directory: '', StrV ''.git''])]"
  by (simp add: startswith_def scan_entry_def bind_def ret_def logging_def ex_state_def init_def)

subsection \<open>C2: the assets of the manifest\<close>

text \<open>
  C2.  When the first part of the upload succeeds on a scanned directory with entries
  \<open>es\<close>, of which \<open>N\<close> are eligible (a regular file whose name has no leading dot and
  contains a dot), the form fields hold exactly the assets numbered 1 to \<open>N + 1\<close>.  Asset 1
  is the index file itself (\<open>@\<close> and its path, extension \<open>txt\<close>), which exists as a file;
  asset \<open>i + 2\<close> is the \<open>i\<close>-th eligible file in scan order, with its path, its classifier
  and its extension.
\<close>

theorem upload_manifest_assets:
  assumes "upload_prepare s = (Inr (idxFilePath, d), s')"
    and "fs s (arg_directory (sargs s)) = Some (Dir es)"
  shows "{k. map_of d (asset_key k) \<noteq> None} = {1 .. length (filter eligible es) + 1}
       \<and> map_of d (asset_key 1) = Some (CHR ''@'' # idxFilePath)
       \<and> map_of d (asset_key 1 @ ''.extension'') = Some ''txt''
       \<and> (\<exists>c. fs s' idxFilePath = Some (File c))
       \<and> (\<forall>i < length (filter eligible es).
            map_of d (asset_key (i + 2))
              = Some (CHR ''@'' # path_join (arg_directory (sargs s))
                                   (entry_name (filter eligible es ! i)))
          \<and> map_of d (asset_key (i + 2) @ ''.classifier'')
              = Some (classifier (entry_name (filter eligible es ! i)))
          \<and> map_of d (asset_key (i + 2) @ ''.extension'')
              = Some (extension (entry_name (filter eligible es ! i))))"
proof -
  from assms(1) obtain es' where h: "fs s (arg_directory (sargs s)) = Some (Dir es')"
    "idxFilePath = index_path s" "d = upload_data3 s es'"
    "s' = s\<lparr>logs := logs s @ upload_log1 s @ upload_log2 s @ concat (map entry_log es'),
                  fs := (fs s)(index_path s \<mapsto> File (index_content s es'))\<rparr>"
    by (rule upload_prepare_Inr)
  from h(1) assms(2) have e: "es' = es" by simp
  have "{k. map_of d (asset_key k) \<noteq> None} = {1 .. length (filter eligible es) + 1}"
    unfolding h(3) e upload_data3_assets by auto
  moreover have "map_of d (asset_key 1) = Some (CHR ''@'' # idxFilePath)"
    "map_of d (asset_key 1 @ ''.extension'') = Some ''txt''"
    by (simp_all add: h(2,3) upload_data3_lookup asset_key_1)
  moreover have "\<exists>c. fs s' idxFilePath = Some (File c)"
    by (simp add: h(2,4))
  ultimately show ?thesis
    using upload_data3_nth [of _ es s] by (simp add: h(3) e)
qed

text \<open>The directory \<open>r\<close>, whose only eligible file is \<open>a.b\<close>: assets 1 and 2.\<close>

theorem upload_manifest_assets_witness:
  "{k. map_of ex_data (asset_key k) \<noteq> None} = {1 .. 2}
   \<and> map_of ex_data (asset_key 1) = Some ''@r/r.txt''
   \<and> map_of ex_data (asset_key 1 @ ''.extension'') = Some ''txt''
   \<and> map_of ex_data (asset_key 2) = Some ''@r/a.b''
   \<and> map_of ex_data (asset_key 2 @ ''.classifier'') = Some ''a''
   \<and> map_of ex_data (asset_key 2 @ ''.extension'') = Some ''b''"
proof -
  have prep: "upload_prepare ex_state = (Inr (''r/r.txt'', ex_data), snd (upload_prepare ex_state))"
    using ex_prepare by (metis prod.collapse)
  have n: "filter eligible [DirEntry ''a.b'' RegularFile, DirEntry ''.h'' RegularFile,
                DirEntry ''sub'' Directory, DirEntry ''README'' RegularFile]
           = [DirEntry ''a.b'' RegularFile]"
    by (simp add: eligible_def startswith_def)
  note t = upload_manifest_assets [OF prep ex_scanned, unfolded n]
  from t show ?thesis
    by (simp add: path_join_def startswith_def classifier_def extension_def
        ex_state_def init_def ex_args_def numeral_2_eq_2)
qed

subsection \<open>C1: the index file and the response parser\<close>

text \<open>
  C1, as the code has it.  When the first part of the upload succeeds on a scanned
  directory with entries \<open>es\<close>, the index file holds exactly one line per eligible entry, in
  scan order, each \<open>artifactId-version-classifier.extension\<close> followed by a newline, where
  \<open>artifactId\<close> and \<open>version\<close> are the form fields of those names.  If no line contains a
  line boundary character and none begins or ends with whitespace, the line splitter of
  \<open>run_curl_cmd\<close> (lines 195 to 199) returns exactly these lines from the file's content, and
  the whole response handling, given the content followed by the status trailer of a 200
  answer, returns them with the status 200.
\<close>

theorem index_roundtrip:
  assumes "upload_prepare s = (Inr (idxFilePath, d), s')"
    and "fs s (arg_directory (sargs s)) = Some (Dir es)"
  shows "\<exists>a v. map_of d ''maven2.artifactId'' = Some a \<and> map_of d ''maven2.version'' = Some v
     \<and> (let lines = map (index_line a v) (filter eligible es);
             content = concat (map (\<lambda>l. l @ [LF]) lines)
         in fs s' idxFilePath = Some (File content)
            \<and> ((\<forall>l\<in>set lines. clean_line l)
                 \<longrightarrow> resp_lines content = lines
                     \<and> curl_response 0 (Utf8 (content @ ''\<newline>**http_status=200\<newline>'')) el t
                         = (Inr (lines, 200, el), t)))"
proof -
  from assms(1) obtain es' where h: "fs s (arg_directory (sargs s)) = Some (Dir es')"
    "idxFilePath = index_path s" "d = upload_data3 s es'"
    "s' = s\<lparr>logs := logs s @ upload_log1 s @ upload_log2 s @ concat (map entry_log es'),
                  fs := (fs s)(index_path s \<mapsto> File (index_content s es'))\<rparr>"
    by (rule upload_prepare_Inr)
  from h(1) assms(2) have e: "es' = es" by simp
  let ?a = "basename (upload_directory s)"
  let ?v = "upload_version s"
  let ?lines = "map (index_line ?a ?v) (filter eligible es)"
  let ?content = "concat (map (\<lambda>l. l @ [LF]) ?lines)"
  have c: "index_content s es = ?content"
    by (simp add: index_content_def comp_def)
  have f: "fs s' idxFilePath = Some (File ?content)"
    by (simp add: h(2,4) e c)
  have r: "resp_lines ?content = ?lines
           \<and> curl_response 0 (Utf8 (?content @ ''\<newline>**http_status=200\<newline>'')) el t
               = (Inr (?lines, 200, el), t)"
    if "\<forall>l\<in>set ?lines. clean_line l"
  proof -
    from that have ok: "\<forall>l\<in>set ?lines. clean_line l \<and> l \<noteq> []"
      by (auto simp: index_line_nonempty)
    have "resp_lines [] = []" by (simp add: resp_lines_def splitlines_def)
    with resp_lines_lines [OF ok, of "[]"] curl_response_200 [OF ok] show ?thesis
      by simp
  qed
  show ?thesis
    apply (rule exI [of _ ?a], rule exI [of _ ?v])
    using f r by (simp add: h(3) upload_data3_base Let_def)
qed

text \<open>The directory \<open>r\<close> with the one eligible file \<open>a.b\<close>.\<close>

theorem index_roundtrip_witness:
  "fs (snd (upload_prepare ex_state)) ''r/r.txt'' = Some (File ''r-1.0-a.b\<newline>'')
   \<and> resp_lines ''r-1.0-a.b\<newline>'' = [''r-1.0-a.b'']
   \<and> curl_response 0 (Utf8 ''r-1.0-a.b\<newline>\<newline>**http_status=200\<newline>'') 5 ex_state
       = (Inr ([''r-1.0-a.b''], 200, 5), ex_state)"
proof -
  have prep: "upload_prepare ex_state = (Inr (''r/r.txt'', ex_data), snd (upload_prepare ex_state))"
    using ex_prepare by (metis prod.collapse)
  have n: "filter eligible [DirEntry ''a.b'' RegularFile, DirEntry ''.h'' RegularFile,
                DirEntry ''sub'' Directory, DirEntry ''README'' RegularFile]
           = [DirEntry ''a.b'' RegularFile]"
    by (simp add: eligible_def startswith_def)
  have l: "index_line ''r'' ''1.0'' (DirEntry ''a.b'' RegularFile) = ''r-1.0-a.b''"
    by (simp add: index_line_def classifier_def extension_def)
  have cl: "clean_line ''r-1.0-a.b''"
    by (simp add: clean_line_def is_linebreak_def is_space_def)
  have d: "map_of ex_data ''maven2.artifactId'' = Some ''r''"
    "map_of ex_data ''maven2.version'' = Some ''1.0''"
    by (simp_all add: ex_data_def)
  from index_roundtrip [OF prep ex_scanned, of 5 ex_state, unfolded n]
  show ?thesis
    using cl by (auto simp: d l Let_def LF_def)
qed

text \<open>
  C1 as stated holds for every upload.  With a file named \<open>a.b\<close> followed by a space, the
  index line ends with that space, and the parser, which strips every line (line 197),
  returns the line without it: the list read back is not the list written.
\<close>

theorem index_roundtrip_counterexample:
  "fs (snd (upload_prepare ex_state_space)) ''r/r.txt'' = Some (File ''r-1.0-a.b \<newline>'')
   \<and> resp_lines ''r-1.0-a.b \<newline>'' = [''r-1.0-a.b'']
   \<and> resp_lines ''r-1.0-a.b \<newline>'' \<noteq> [''r-1.0-a.b '']"
  by code_simp

subsection \<open>C3: the index file is removed on every exit path\<close>

text \<open>
  C3.  Let the first part of \<open>do_upload\<close> succeed, so that the transfer call of line 113 is
  reached with the index file written at \<open>idxFilePath\<close>.  Then the transfer invokes at most
  one process, the curl command that carries the form fields, and that process runs on the
  file system the first part has left, where the index file still is; no process is invoked
  only if the call ends with an exception before it starts one.  When \<open>do_upload\<close> is over
  the file system is that same one without the index file.  This holds whatever the world
  does: the process answers 204, answers another status, answers 401 or 403, exits with an
  error, is not started because the program is not found, or exceeds the timeout.
\<close>

theorem index_file_removed:
  assumes "upload_prepare s = (Inr (idxFilePath, d), s1)"
  shows "(\<exists>c. fs s1 idxFilePath = Some (File c))
     \<and> ((calls (snd (do_upload w s)) = calls s \<and> (\<exists>e. fst (do_upload w s) = Inl e))
        \<or> (\<exists>auth. calls (snd (do_upload w s))
                     = calls s @ [(curl_command auth upload_target (Some d) None, fs s1)]))
     \<and> fs (snd (do_upload w s)) = (fs s1)(idxFilePath := None)
     \<and> fs (snd (do_upload w s)) idxFilePath = None"
  using upload_removes_index [OF assms, of w] by simp

text \<open>Six exit paths on the directory \<open>r\<close>: status 204 (success), status 500 (the upload
  dies), status 403 and a process that exits with code 7 (the transport dies), a program
  that is not found and a process that exceeds the timeout (uncaught exceptions).  In each
  the process found the index file, and the file is gone at the end.\<close>

theorem index_file_removed_witness:
  "fst (ex_upload (ex_reply ''204'')) = Inr ()
   \<and> snd (last (calls (snd (ex_upload (ex_reply ''204''))))) ''r/r.txt''
       = Some (File ''r-1.0-a.b\<newline>'')
   \<and> fs (snd (ex_upload (ex_reply ''204''))) ''r/r.txt'' = None
   \<and> fst (ex_upload (ex_reply ''500'')) = Inl (SystemExit 1)
   \<and> snd (last (calls (snd (ex_upload (ex_reply ''500''))))) ''r/r.txt''
       = Some (File ''r-1.0-a.b\<newline>'')
   \<and> fs (snd (ex_upload (ex_reply ''500''))) ''r/r.txt'' = None
   \<and> fst (ex_upload (ex_reply ''403'')) = Inl (SystemExit 1)
   \<and> snd (last (calls (snd (ex_upload (ex_reply ''403''))))) ''r/r.txt''
       = Some (File ''r-1.0-a.b\<newline>'')
   \<and> fs (snd (ex_upload (ex_reply ''403''))) ''r/r.txt'' = None
   \<and> fst (ex_upload (Completed 7 (Utf8 ''x'') 5)) = Inl (SystemExit 1)
   \<and> snd (last (calls (snd (ex_upload (Completed 7 (Utf8 ''x'') 5))))) ''r/r.txt''
       = Some (File ''r-1.0-a.b\<newline>'')
   \<and> fs (snd (ex_upload (Completed 7 (Utf8 ''x'') 5))) ''r/r.txt'' = None
   \<and> fst (ex_upload NoSuchProgram) = Inl FileNotFoundError
   \<and> snd (last (calls (snd (ex_upload NoSuchProgram)))) ''r/r.txt''
       = Some (File ''r-1.0-a.b\<newline>'')
   \<and> fs (snd (ex_upload NoSuchProgram)) ''r/r.txt'' = None
   \<and> fst (ex_upload TimedOut) = Inl TimeoutExpired
   \<and> snd (last (calls (snd (ex_upload TimedOut)))) ''r/r.txt''
       = Some (File ''r-1.0-a.b\<newline>'')
   \<and> fs (snd (ex_upload TimedOut)) ''r/r.txt'' = None"
proof -
  have e: "calls ex_state = []"
    by (simp add: ex_state_def init_def)
  have "snd (last (calls (snd (ex_upload res)))) ''r/r.txt'' = Some (File ''r-1.0-a.b\<newline>'')
      \<and> fs (snd (ex_upload res)) ''r/r.txt'' = None"
    if "length (calls (snd (ex_upload res))) = 1" for res
  proof -
    note t = index_file_removed [OF ex_prepare_eq, of "ex_world res", folded ex_upload_def]
    from that have "length (calls (snd (ex_upload res))) = Suc (length (calls ex_state))"
      by (simp add: e)
    from snapshot_of_call [OF t [THEN conjunct2, THEN conjunct1] this] t
    show ?thesis
      by (simp add: ex_prepared_index)
  qed
  with ex_upload_runs show ?thesis
    by simp
qed

subsection \<open>C10: a file that has the name of the index file\<close>



subsection \<open>C4: the dot in the directory name\<close>

text \<open>
  C4, as the code has it.  \<open>do_upload\<close> dies with the message
  \<open>dir name must not contain a "." (dot)\<close> exactly when the directory argument, trimmed of
  leading and trailing separators, names an existing directory and contains a dot anywhere
  in it, in the base name or before it.  And whenever the directory argument contains a
  dot, \<open>do_upload\<close> dies in one of its three checks (no such path, not a directory, the
  dot) and no external process is invoked.
\<close>

theorem dot_validation:
  "((fst (do_upload w s) = Inl (SystemExit 1)
      \<and> errors (snd (do_upload w s)) = errors s @ [dot_message])
    = ((\<exists>es. fs s (upload_directory s) = Some (Dir es)) \<and> CHR ''.'' \<in> set (upload_directory s)))
   \<and> (CHR ''.'' \<in> set (arg_directory (sargs s))
      \<longrightarrow> fst (do_upload w s) = Inl (SystemExit 1) \<and> calls (snd (do_upload w s)) = calls s
          \<and> (errors (snd (do_upload w s)) = errors s @ [nofile_message (upload_directory s)]
             \<or> errors (snd (do_upload w s)) = errors s @ [notdir_message]
             \<or> errors (snd (do_upload w s)) = errors s @ [dot_message]))"
  using do_upload_dot [of w s] do_upload_dotted [of s w] by blast

text \<open>The directory \<open>r.d\<close>, given with a trailing slash.\<close>

theorem dot_validation_witness:
  "fst (do_upload (ex_world (ex_reply ''204'')) (init (ex_args ''upload'' ''r.d/'') ex_fs_dot))
     = Inl (SystemExit 1)
   \<and> errors (snd (do_upload (ex_world (ex_reply ''204''))
                    (init (ex_args ''upload'' ''r.d/'') ex_fs_dot))) = [dot_message]
   \<and> calls (snd (do_upload (ex_world (ex_reply ''204''))
                  (init (ex_args ''upload'' ''r.d/'') ex_fs_dot))) = []"
proof -
  let ?s = "init (ex_args ''upload'' ''r.d/'') ex_fs_dot"
  have a: "upload_directory ?s = ''r.d''" "arg_directory (sargs ?s) = ''r.d/''"
    "errors ?s = []" "calls ?s = []"
    by (simp_all add: upload_directory_def strip_chars_def init_def ex_args_def errors_def)
  have b: "fs ?s ''r.d'' = Some (Dir [])"
    by (simp add: init_def ex_fs_dot_def)
  from dot_validation [of "ex_world (ex_reply ''204'')" ?s]
  show ?thesis
    by (simp add: a b)
qed

text \<open>
  C4 as stated has the failure exactly when the base name contains a dot.  For the
  existing directory \<open>a.b/r\<close> the base name \<open>r\<close> has none, and the upload still dies with
  the dot message: line 75 tests the whole path.
\<close>

theorem dot_outside_base_name:
  "CHR ''.'' \<notin> set (basename ''a.b/r'')
   \<and> fst (do_upload (ex_world (ex_reply ''204'')) (init (ex_args ''upload'' ''a.b/r'') ex_fs_dot))
       = Inl (SystemExit 1)
   \<and> errors (snd (do_upload (ex_world (ex_reply ''204''))
                      (init (ex_args ''upload'' ''a.b/r'') ex_fs_dot))) = [dot_message]"
  by code_simp

subsection \<open>C8: the destination directory of a download\<close>




subsection \<open>C9: a login in the environment without a password\<close>

text \<open>
  C9, as the code has it.  Let no login be among the arguments, \<open>NEXUS_LOGIN\<close> be set and
  \<open>NEXUS_PASSWD\<close> not.  Then no run invokes an external process and every run fails.  The
  failure is the configuration error \<open>NEXUS_PASSWD env variable is not defined\<close> whenever
  the run gets as far as the Transport Invoker: for an upload, when the checks, the scan
  and the index write succeed; for a download, when the destination directory is accepted
  or created.  A run that fails in these earlier steps fails with their error instead.
\<close>

theorem password_required:
  assumes "password_missing w s"
  shows "calls (snd (main w s)) = calls s \<and> (\<exists>e. fst (main w s) = Inl e)
     \<and> (\<forall>x s1. upload_prepare s = (Inr x, s1)
          \<longrightarrow> fst (do_upload w s) = Inl (SystemExit 1)
              \<and> errors (snd (do_upload w s)) = errors s @ [passwd_message])
     \<and> (\<forall>y s2. download_destination s = (Inr y, s2)
          \<longrightarrow> fst (do_download w s) = Inl (SystemExit 1)
              \<and> errors (snd (do_download w s)) = errors s @ [passwd_message])"
proof -
  let ?s1 = "s\<lparr>debug_on := (arg_verbose (sargs s) \<or> verbose CONF)\<rparr>"
  have pm: "password_missing w ?s1" "calls ?s1 = calls s"
    using assms by (simp_all add: password_missing_def)
  have "calls (snd (main w s)) = calls s \<and> (\<exists>e. fst (main w s) = Inl e)"
    using run_without_password(1,2) [OF pm(1)] pm(2)
    by (simp add: main_def Let_def)
  with run_without_password(3,4) [OF assms] show ?thesis by blast
qed

text \<open>An upload of the directory \<open>r\<close> and a download into an empty file system, with the
  login \<open>bob\<close> in the environment and no password.\<close>

theorem password_required_witness:
  "calls (snd (main ex_world_login ex_state)) = []
   \<and> fst (do_upload ex_world_login ex_state) = Inl (SystemExit 1)
   \<and> errors (snd (do_upload ex_world_login ex_state)) = [passwd_message]
   \<and> fst (do_download ex_world_login (init (ex_args ''download'' ''r'') ex_fs_none))
       = Inl (SystemExit 1)
   \<and> errors (snd (do_download ex_world_login (init (ex_args ''download'' ''r'') ex_fs_none)))
       = [passwd_message]"
proof -
  let ?d = "init (ex_args ''download'' ''r'') ex_fs_none"
  have pm: "password_missing ex_world_login ex_state" "password_missing ex_world_login ?d"
    by (simp_all add: password_missing_def ex_world_login_def ex_env_login_def ex_state_def
        init_def ex_args_def)
  have e: "errors ex_state = []" "calls ex_state = []" "errors ?d = []"
    by (simp_all add: ex_state_def init_def errors_def)
  have "calls (snd (main ex_world_login ex_state)) = calls ex_state"
    using password_required [OF pm(1)] by blast
  moreover have "fst (do_upload ex_world_login ex_state) = Inl (SystemExit 1)
      \<and> errors (snd (do_upload ex_world_login ex_state)) = errors ex_state @ [passwd_message]"
    using password_required [OF pm(1)] ex_prepare_eq by blast
  moreover have "fst (do_download ex_world_login ?d) = Inl (SystemExit 1)
      \<and> errors (snd (do_download ex_world_login ?d)) = errors ?d @ [passwd_message]"
    using password_required [OF pm(2)] ex_destination by blast
  ultimately show ?thesis
    by (simp add: e)
qed

text \<open>
  C9 as stated has every such run fail with the configuration error.  The upload of a
  directory that does not exist fails before \<open>get_auth\<close> is called, at line 64, with the
  message of that check.
\<close>

theorem validation_before_password:
  "password_missing ex_world_login (init (ex_args ''upload'' ''nodir'') ex_fs_none)
   \<and> fst (main ex_world_login (init (ex_args ''upload'' ''nodir'') ex_fs_none))
       = Inl (SystemExit 1)
   \<and> errors (snd (main ex_world_login (init (ex_args ''upload'' ''nodir'') ex_fs_none)))
       = [nofile_message ''nodir'']
   \<and> nofile_message ''nodir'' \<noteq> passwd_message"
  by code_simp

subsection \<open>C6: the authentication error\<close>

text \<open>
  C6.  Take a run from its start and any process it has invoked, for the upload, the index
  fetch or the bulk fetch.  If the status read from what that process printed is 401 or
  403, the run ends with \<open>SystemExit(1)\<close> and the one error it reports is the message
  \<open>curl failed: status=... (authentication error) => check login and password\<close>, which
  carries the status and is none of the messages of the other transport failures: the one
  for a process that exits with an error, the ones for an unexpected status of the upload
  and of the bulk fetch, and the one for a failed index fetch.
\<close>

theorem authentication_error_reported:
  assumes "main w s = (r, s')" and "calls s = []" and "(cmd, f) \<in> set (calls s')"
    and "http_status (run_process w cmd f) = Some st" and "st = 401 \<or> st = 403"
  shows "r = Inl (SystemExit 1) \<and> errors s' = errors s @ [auth_message st]
     \<and> auth_message st
         = [Lit ''curl failed: status='', IntV st,
            Lit '' (authentication error) => check login and password '']
     \<and> (\<forall>rc el out. auth_message st \<noteq> exit_message rc el out)
     \<and> (\<forall>st' resp el. auth_message st \<noteq> upload_failed_message st' resp el)
     \<and> (\<forall>st' el resp. auth_message st \<noteq> download_failed_message st' el resp)
     \<and> auth_message st \<noteq> index_failed_message"
  using main_auth [OF assms]
  by (simp add: auth_message_def exit_message_def upload_failed_message_def
      download_failed_message_def index_failed_message_def)

text \<open>The three call sites: an upload answered with 403, a download whose index fetch is
  answered with 401, and a download whose bulk fetch is answered with 403.\<close>

theorem authentication_error_reported_witness:
  "fst (main (ex_world (ex_reply ''403'')) ex_state) = Inl (SystemExit 1)
   \<and> errors (snd (main (ex_world (ex_reply ''403'')) ex_state)) = [auth_message 403]
   \<and> fst (main (ex_world (ex_reply ''401'')) ex_download) = Inl (SystemExit 1)
   \<and> errors (snd (main (ex_world (ex_reply ''401'')) ex_download)) = [auth_message 401]
   \<and> fst (main (ex_world2 ex_index (ex_reply ''403'')) ex_download) = Inl (SystemExit 1)
   \<and> errors (snd (main (ex_world2 ex_index (ex_reply ''403'')) ex_download))
       = [auth_message 403]"
proof -
  have a: "fst (main (ex_world (ex_reply ''403'')) ex_state) = Inl (SystemExit 1)
      \<and> errors (snd (main (ex_world (ex_reply ''403'')) ex_state))
          = errors ex_state @ [auth_message 403]"
    using authentication_error_reported
        [where st = 403, OF prod.collapse [symmetric] _ last_in_calls [OF ex_lengths(1)]]
    by (simp add: ex_status ex_empty ex_world_run)
  have b: "fst (main (ex_world (ex_reply ''401'')) ex_download) = Inl (SystemExit 1)
      \<and> errors (snd (main (ex_world (ex_reply ''401'')) ex_download))
          = errors ex_download @ [auth_message 401]"
    using authentication_error_reported
        [where st = 401, OF prod.collapse [symmetric] _ last_in_calls [OF ex_lengths(2)]]
    by (simp add: ex_status ex_empty ex_world_run)
  have c: "fst (main (ex_world2 ex_index (ex_reply ''403'')) ex_download) = Inl (SystemExit 1)
      \<and> errors (snd (main (ex_world2 ex_index (ex_reply ''403'')) ex_download))
          = errors ex_download @ [auth_message 403]"
    using authentication_error_reported
        [where st = 403, OF prod.collapse [symmetric] _ last_in_calls [OF ex_lengths(3)]]
    by (simp add: ex_status ex_empty ex_world_run ex_lengths(4))
  from a b c show ?thesis
    by (simp add: ex_empty)
qed

end
